theory Spec2Isabelle
  imports Main "HOL-Library.Word"
begin

section \<open>pg_simula: failure simulation hooks, embedded from src/pg_simula.c\<close>

text \<open>
  The backend-local globals of pg_simula.c become one record that every function takes
  and returns. What the code asks of the host (sleeping, running a statement through
  SPI, calling the next planner or utility handler) is appended to a trace kept in that
  record, so that "an action fired", "a storage request was issued" and "the call was
  forwarded" are facts about the trace. An \<^verbatim>\<open>ereport\<close> at level ERROR, FATAL or PANIC leaves
  the function by a non-local exit: it is the \<open>Inl\<close> branch of the result, paired with the
  globals as they stood at the raise.
\<close>

subsection \<open>C strings, fixed buffers and case-insensitive comparison\<close>

text \<open>
  A value of type \<open>string\<close> handed over by the host (a command tag, a text argument, a
  column value, a literal) stands for a NUL-terminated C string; \<open>cstring\<close> is its image
  in memory, terminator included. A \<^verbatim>\<open>char[MAX_LENGTH]\<close> member of a struct is the list of
  its MAX_LENGTH bytes, which holds a terminator only if one was written there.
\<close>

definition NUL :: char where
  "NUL = CHR 0x00"

definition MAX_LENGTH :: nat where
  "MAX_LENGTH = 100"

definition cstring :: "string \<Rightarrow> string" where
  "cstring s = takeWhile (\<lambda>c. c \<noteq> NUL) s @ [NUL]"

text \<open>
  Modelled from the spec: \<^verbatim>\<open>pg_strcasecmp\<close> is the host's case-insensitive comparison and is
  not in src/. It walks both strings byte by byte, folds \<^verbatim>\<open>'A'..'Z'\<close> to lower case when the
  bytes differ, returns the difference at the first mismatch and 0 when both terminators
  are reached together. Bytes with the high bit set are compared as they are (the C and
  UTF-8 locales). \<open>None\<close> is a read past the end of an argument that holds no terminator.
\<close>

definition pg_tolower :: "char \<Rightarrow> char" where
  "pg_tolower ch =
     (if (65::nat) \<le> of_char ch \<and> of_char ch \<le> (90::nat)
      then char_of (of_char ch + (32::nat)) else ch)"

fun pg_strcasecmp :: "string \<Rightarrow> string \<Rightarrow> int option" where
  "pg_strcasecmp (c1 # s1) (c2 # s2) =
     (if c1 \<noteq> c2 then
        (let ch1 = pg_tolower c1; ch2 = pg_tolower c2 in
         if ch1 \<noteq> ch2 then Some (int (of_char ch1) - int (of_char ch2))
         else if ch1 = NUL then Some 0
         else pg_strcasecmp s1 s2)
      else if c1 = NUL then Some 0
      else pg_strcasecmp s1 s2)"
| "pg_strcasecmp _ _ = None"

text \<open>
  \<^verbatim>\<open>strncpy(dst, src, n)\<close> from a NUL-terminated source: the first \<open>n\<close> bytes of the source,
  padded with NUL up to \<open>n\<close> when the source is shorter, and no terminator when it is not.
\<close>

fun strncpy :: "string \<Rightarrow> nat \<Rightarrow> string" where
  "strncpy src 0 = []"
| "strncpy [] (Suc n) = replicate (Suc n) NUL"
| "strncpy (c # src) (Suc n) =
     (if c = NUL then replicate (Suc n) NUL else c # strncpy src n)"

text \<open>The spec's wording of the comparison: equal after folding ASCII letters, on the
  characters before the terminator.\<close>

definition c_content :: "string \<Rightarrow> string" where
  "c_content mem = takeWhile (\<lambda>c. c \<noteq> NUL) mem"

definition same_ignoring_case :: "string \<Rightarrow> string \<Rightarrow> bool" where
  "same_ignoring_case a b = (map pg_tolower (c_content a) = map pg_tolower (c_content b))"


subsection \<open>Data: rules, statements, errors, backend state\<close>

type_synonym int32 = "32 word"

text \<open>\<^verbatim>\<open>struct SimulaEvent\<close>: two buffers of MAX_LENGTH bytes and an \<^verbatim>\<open>int\<close>.\<close>

record SimulaEvent =
  operation :: string
  action :: string
  sec :: int32

text \<open>
  A row of \<^verbatim>\<open>simula_events(operation text PRIMARY KEY, action text, sec integer)\<close>. The key
  column cannot be NULL; the other two can, and \<^verbatim>\<open>SPI_getvalue\<close> then returns a null pointer.
  The integer column is kept as the number that \<^verbatim>\<open>atoi\<close> reads back from the text that
  \<^verbatim>\<open>SPI_getvalue\<close> prints for it.
\<close>

type_synonym row = "string \<times> string option \<times> int32 option"

text \<open>
  The three statements the code sends through SPI, by their structure:
  \<^verbatim>\<open>SELECT * FROM public.simula_events\<close>,
  \<^verbatim>\<open>INSERT INTO simula_events VALUES('%s', '%s', %d) ON CONFLICT ON CONSTRAINT
  simula_events_pkey DO UPDATE SET (action, sec) = (excluded.action, excluded.sec)\<close> and
  \<^verbatim>\<open>TRUNCATE simula_events\<close>.
\<close>

datatype stmt = SelectAll | Upsert string string int32 | Truncate

datatype error =
    InvalidAction string    \<comment> \<open>\<^verbatim>\<open>ereport(ERROR, "invalid action: ...")\<close>\<close>
  | SPIExecuteFailed int    \<comment> \<open>\<^verbatim>\<open>elog(ERROR, "SPI_execute falied: error code %d")\<close>\<close>
  | SimulatedERROR          \<comment> \<open>\<^verbatim>\<open>ereport(ERROR, ...)\<close> of \<^verbatim>\<open>error_func\<close>\<close>
  | SimulatedPANIC          \<comment> \<open>\<^verbatim>\<open>ereport(PANIC, ...)\<close> of \<^verbatim>\<open>panic_func\<close>\<close>
  | SimulatedFATAL          \<comment> \<open>\<^verbatim>\<open>ereport(FATAL, ...)\<close> of \<^verbatim>\<open>fatal_func\<close>\<close>
  | StorageRaised stmt      \<comment> \<open>an ERROR raised by the host while it runs a statement\<close>
  | NullDereference         \<comment> \<open>a null pointer handed to \<^verbatim>\<open>strncpy\<close> or \<^verbatim>\<open>atoi\<close>\<close>
  | BufferOverread          \<comment> \<open>a comparison that runs past an unterminated buffer\<close>

datatype handler = Previous | Standard

datatype event =
    PgUsleep int                 \<comment> \<open>\<^verbatim>\<open>pg_usleep\<close> called with this many microseconds\<close>
  | SPIExecute stmt              \<comment> \<open>\<^verbatim>\<open>SPI_execute\<close> called with this statement\<close>
  | PlannerCalled handler string \<comment> \<open>the next planner called for a statement with this tag\<close>
  | UtilityCalled handler string \<comment> \<open>the next utility handler called for this tag\<close>

text \<open>How the host's executor may fail: by raising an ERROR, or by returning one of the
  negative \<^verbatim>\<open>SPI_ERROR_*\<close> codes (\<open>SPIReturnsError n\<close> is the code \<open>- n - 1\<close>).\<close>

datatype spi_fault = SPIRaises | SPIReturnsError nat

record backend =
  simulation_enabled :: bool          \<comment> \<open>GUC \<^verbatim>\<open>pg_simula.enabled\<close>\<close>
  in_simula_event_progress :: bool
  registered_to_callback :: bool
  SimulaEvents :: "SimulaEvent list"
  prev_planner :: bool                \<comment> \<open>a planner hook was installed before this one\<close>
  prev_ProcessUtility :: bool         \<comment> \<open>likewise for the utility hook\<close>
  IsTransactionState :: bool          \<comment> \<open>host: a transaction is in progress\<close>
  extension_created :: bool           \<comment> \<open>host: \<^verbatim>\<open>get_extension_oid("pg_simula", true)\<close> is valid\<close>
  simula_events :: "row list"         \<comment> \<open>host: the rows of the relation\<close>
  spi_fault :: "spi_fault option"     \<comment> \<open>host: how running a statement fails, if it does\<close>
  trace :: "event list"

type_synonym 'a result = "(error + 'a) \<times> backend"

definition emit :: "event \<Rightarrow> backend \<Rightarrow> backend" where
  "emit ev s = s\<lparr>trace := trace s @ [ev]\<rparr>"

subsection \<open>The action table\<close>

definition error_func :: "int32 \<Rightarrow> backend \<Rightarrow> unit result" where
  "error_func n s = (Inl SimulatedERROR, s)"

definition panic_func :: "int32 \<Rightarrow> backend \<Rightarrow> unit result" where
  "panic_func n s = (Inl SimulatedPANIC, s)"

text \<open>
  \<^verbatim>\<open>pg_usleep(sec * 1000 * 1000)\<close>: the product is computed in \<^verbatim>\<open>int\<close>, where it wraps
  around (the host is built with \<^verbatim>\<open>-fwrapv\<close>), and only then widened to the \<^verbatim>\<open>long\<close>
  that \<^verbatim>\<open>pg_usleep\<close> takes.
\<close>

definition wait_func :: "int32 \<Rightarrow> backend \<Rightarrow> unit result" where
  "wait_func n s = (Inr (), emit (PgUsleep (sint (n * 1000 * 1000))) s)"

definition fatal_func :: "int32 \<Rightarrow> backend \<Rightarrow> unit result" where
  "fatal_func n s = (Inl SimulatedFATAL, s)"

type_synonym act_func = "int32 \<Rightarrow> backend \<Rightarrow> unit result"

definition ActionTable :: "(string \<times> act_func) list" where
  "ActionTable =
     [(''error'', error_func), (''panic'', panic_func),
      (''wait'', wait_func), (''fatal'', fatal_func)]"

subsection \<open>The guard predicate and the dispatcher\<close>

definition needReloadAndEvent :: "string \<Rightarrow> backend \<Rightarrow> bool" where
  "needReloadAndEvent commandTag s =
     (simulation_enabled s \<and>
      \<not> in_simula_event_progress s \<and>
      IsTransactionState s \<and>
      pg_strcasecmp (cstring commandTag) (cstring ''START TRANSACTION'') \<noteq> Some 0 \<and>
      pg_strcasecmp (cstring commandTag) (cstring ''BEGIN'') \<noteq> Some 0)"

text \<open>
  The inner loop of \<^verbatim>\<open>doEventIfAny\<close>: walk the action table for the entry whose name
  compares equal to the rule's action buffer. \<open>Inr None\<close> is the loop running off the
  table's end.
\<close>

fun find_action :: "(string \<times> act_func) list \<Rightarrow> string \<Rightarrow> error + act_func option" where
  "find_action [] buf = Inr None"
| "find_action ((name, func) # acts) buf =
     (case pg_strcasecmp (cstring name) buf of
        None \<Rightarrow> Inl BufferOverread
      | Some d \<Rightarrow> if d = 0 then Inr (Some func) else find_action acts buf)"

text \<open>
  The outer loop of \<^verbatim>\<open>doEventIfAny\<close>, over the cells of \<^verbatim>\<open>SimulaEvents\<close>. The function
  returns after the first call of an action; a rule whose operation compares equal but
  whose action is in no table entry falls out of the inner loop and the scan goes on.
\<close>

fun doEventIfAny_loop :: "string \<Rightarrow> SimulaEvent list \<Rightarrow> backend \<Rightarrow> unit result" where
  "doEventIfAny_loop commandTag [] s = (Inr (), s)"
| "doEventIfAny_loop commandTag (ev # cells) s =
     (case pg_strcasecmp (operation ev) (cstring commandTag) of
        None \<Rightarrow> (Inl BufferOverread, s)
      | Some d \<Rightarrow>
          if d = 0 then
            (case find_action ActionTable (action ev) of
               Inl e \<Rightarrow> (Inl e, s)
             | Inr (Some func) \<Rightarrow> func (sec ev) s
             | Inr None \<Rightarrow> doEventIfAny_loop commandTag cells s)
          else doEventIfAny_loop commandTag cells s)"

definition doEventIfAny :: "string \<Rightarrow> backend \<Rightarrow> unit result" where
  "doEventIfAny commandTag s = doEventIfAny_loop commandTag (SimulaEvents s) s"


subsection \<open>The host's side of SPI and of the hook chain\<close>

text \<open>
  Modelled from the spec: the host's storage layer is not in src/. \<^verbatim>\<open>SPI_execute\<close> hands
  back a return code and sets \<^verbatim>\<open>SPI_processed\<close> and \<^verbatim>\<open>SPI_tuptable\<close>; reading returns the
  rows of the relation in stored order, the upsert inserts or replaces the row keyed by
  \<open>operation\<close> (the key is compared exactly), truncation removes every row. The values of
  the upsert are spliced into the statement text unescaped, so \<open>Upsert\<close> is the statement
  the host sees for an operation that holds no single quote.
\<close>

record spi_result =
  ret :: int
  SPI_processed :: nat
  SPI_tuptable :: "row list option"

definition SPI_OK_UTILITY :: int where "SPI_OK_UTILITY = 4"
definition SPI_OK_SELECT :: int where "SPI_OK_SELECT = 5"
definition SPI_OK_INSERT :: int where "SPI_OK_INSERT = 7"

fun upsert_row :: "string \<Rightarrow> string \<Rightarrow> int32 \<Rightarrow> row list \<Rightarrow> row list" where
  "upsert_row ope act n [] = [(ope, Some act, Some n)]"
| "upsert_row ope act n ((k, a, m) # rows) =
     (if k = ope then (k, Some act, Some n) # rows
      else (k, a, m) # upsert_row ope act n rows)"

definition isPgSimulaLoaded :: "backend \<Rightarrow> bool" where
  "isPgSimulaLoaded s = extension_created s"



text \<open>\<^verbatim>\<open>if (!registered_to_callback) { RegisterXactCallback(...); registered_to_callback = true; }\<close>\<close>

definition register_xact_callback :: "backend \<Rightarrow> backend" where
  "register_xact_callback s =
     (if \<not> registered_to_callback s then s\<lparr>registered_to_callback := True\<rparr> else s)"

text \<open>The tail of each hook: the previous hook when one was installed, the standard
  handler otherwise.\<close>

definition call_next_planner :: "string \<Rightarrow> backend \<Rightarrow> unit result" where
  "call_next_planner commandTag s =
     (if prev_planner s then (Inr (), emit (PlannerCalled Previous commandTag) s)
      else (Inr (), emit (PlannerCalled Standard commandTag) s))"

definition call_next_ProcessUtility :: "string \<Rightarrow> backend \<Rightarrow> unit result" where
  "call_next_ProcessUtility commandTag s =
     (if prev_ProcessUtility s then (Inr (), emit (UtilityCalled Previous commandTag) s)
      else (Inr (), emit (UtilityCalled Standard commandTag) s))"

subsection \<open>Refresh, the two hooks, and the statements they run\<close>

text \<open>
  The body of the \<^verbatim>\<open>for\<close> loop of \<^verbatim>\<open>reloadEventTableData\<close>, one tuple at a time:
  \<^verbatim>\<open>strncpy\<close> of the first two columns into the buffers of a fresh event, \<^verbatim>\<open>atoi\<close> of
  the third, \<^verbatim>\<open>lappend\<close>. A NULL in the second or third column stops the backend.
\<close>

definition new_SimulaEvent :: "string \<Rightarrow> string \<Rightarrow> int32 \<Rightarrow> SimulaEvent" where
  "new_SimulaEvent ope act n =
     \<lparr>operation = strncpy ope MAX_LENGTH, action = strncpy act MAX_LENGTH, sec = n\<rparr>"

fun load_rows :: "row list \<Rightarrow> backend \<Rightarrow> unit result" where
  "load_rows [] s = (Inr (), s)"
| "load_rows ((ope, act, n) # vals) s =
     (case act of
        None \<Rightarrow> (Inl NullDereference, s)
      | Some act_str \<Rightarrow>
          (case n of
             None \<Rightarrow> (Inl NullDereference, s)
           | Some n_val \<Rightarrow>
               load_rows vals
                 (s\<lparr>SimulaEvents := SimulaEvents s @ [new_SimulaEvent ope act_str n_val]\<rparr>)))"

text \<open>
  Running a statement through SPI plans it (SELECT, INSERT) or hands it to the utility
  processor (TRUNCATE), so the host calls the installed hook again from inside
  \<^verbatim>\<open>SPI_execute\<close>, with the statement's own command tag. The four functions are therefore
  mutually recursive; the recursion ends because a hook enters the refresh only with
  \<open>in_simula_event_progress\<close> clear and sets it first.
\<close>

function pg_simula_planner :: "string \<Rightarrow> backend \<Rightarrow> unit result"
  and pg_simula_ProcessUtility :: "string \<Rightarrow> backend \<Rightarrow> unit result"
  and reloadEventTableData :: "backend \<Rightarrow> unit result"
  and SPI_execute :: "stmt \<Rightarrow> backend \<Rightarrow> spi_result result"
where
  "pg_simula_planner commandTag s0 =
     (let s = register_xact_callback s0 in
      if needReloadAndEvent commandTag s then
        (case reloadEventTableData (s\<lparr>in_simula_event_progress := True\<rparr>) of
           (Inl e, s1) \<Rightarrow> (Inl e, s1)
         | (Inr _, s1) \<Rightarrow>
             (case doEventIfAny commandTag s1 of
                (Inl e, s2) \<Rightarrow> (Inl e, s2)
              | (Inr _, s2) \<Rightarrow>
                  call_next_planner commandTag (s2\<lparr>in_simula_event_progress := False\<rparr>)))
      else call_next_planner commandTag s)"
| "pg_simula_ProcessUtility commandTag s0 =
     (let s = register_xact_callback s0 in
      if needReloadAndEvent commandTag s then
        (case reloadEventTableData (s\<lparr>in_simula_event_progress := True\<rparr>) of
           (Inl e, s1) \<Rightarrow> (Inl e, s1)
         | (Inr _, s1) \<Rightarrow>
             (case doEventIfAny commandTag s1 of
                (Inl e, s2) \<Rightarrow> (Inl e, s2)
              | (Inr _, s2) \<Rightarrow>
                  call_next_ProcessUtility commandTag
                    (s2\<lparr>in_simula_event_progress := False\<rparr>)))
      else call_next_ProcessUtility commandTag s)"
| "reloadEventTableData s0 =
     (let s = s0\<lparr>SimulaEvents := []\<rparr> in
      if \<not> isPgSimulaLoaded s then (Inr (), s)
      else
        (case SPI_execute SelectAll s of
           (Inl e, s1) \<Rightarrow> (Inl e, s1)
         | (Inr res, s1) \<Rightarrow>
             if ret res \<noteq> SPI_OK_SELECT then (Inl (SPIExecuteFailed (ret res)), s1)
             else
               (case SPI_tuptable res of
                  Some vals \<Rightarrow>
                    if ret res > 0 then load_rows (take (SPI_processed res) vals) s1
                    else (Inr (), s1)
                | None \<Rightarrow> (Inr (), s1))))"
| "SPI_execute st s0 =
     (let s = emit (SPIExecute st) s0 in
      case spi_fault s of
        Some SPIRaises \<Rightarrow> (Inl (StorageRaised st), s)
      | Some (SPIReturnsError n) \<Rightarrow>
          (Inr \<lparr>ret = - int n - 1, SPI_processed = 0, SPI_tuptable = None\<rparr>, s)
      | None \<Rightarrow>
          (case st of
             SelectAll \<Rightarrow>
               (case pg_simula_planner ''SELECT'' s of
                  (Inl e, s1) \<Rightarrow> (Inl e, s1)
                | (Inr _, s1) \<Rightarrow>
                    (Inr \<lparr>ret = SPI_OK_SELECT,
                          SPI_processed = length (simula_events s1),
                          SPI_tuptable = Some (simula_events s1)\<rparr>, s1))
           | Upsert ope act n \<Rightarrow>
               (case pg_simula_planner ''INSERT'' s of
                  (Inl e, s1) \<Rightarrow> (Inl e, s1)
                | (Inr _, s1) \<Rightarrow>
                    (Inr \<lparr>ret = SPI_OK_INSERT, SPI_processed = 1, SPI_tuptable = None\<rparr>,
                     s1\<lparr>simula_events := upsert_row ope act n (simula_events s1)\<rparr>))
           | Truncate \<Rightarrow>
               (case pg_simula_ProcessUtility ''TRUNCATE TABLE'' s of
                  (Inl e, s1) \<Rightarrow> (Inl e, s1)
                | (Inr _, s1) \<Rightarrow>
                    (Inr \<lparr>ret = SPI_OK_UTILITY, SPI_processed = 0, SPI_tuptable = None\<rparr>,
                     s1\<lparr>simula_events := []\<rparr>))))"
  by pat_completeness auto


subsection \<open>The administrative entry points\<close>

text \<open>The loop of \<^verbatim>\<open>add_simula_event\<close> over the action table that sets \<^verbatim>\<open>found\<close>.\<close>

fun action_found :: "(string \<times> act_func) list \<Rightarrow> string \<Rightarrow> bool" where
  "action_found [] act_str = False"
| "action_found ((name, func) # acts) act_str =
     (if pg_strcasecmp (cstring name) (cstring act_str) = Some 0 then True
      else action_found acts act_str)"

text \<open>
  \<^verbatim>\<open>add_simula_event\<close>: the flag is set first, the action is looked up, an unknown one
  raises before any statement is built; otherwise the upsert runs through SPI, the flag
  is cleared and \<^verbatim>\<open>PG_RETURN_BOOL(ret)\<close> turns the return code into a boolean.
\<close>

definition add_simula_event :: "string \<Rightarrow> string \<Rightarrow> int32 \<Rightarrow> backend \<Rightarrow> bool result" where
  "add_simula_event ope_str act_str n s0 =
     (let s = s0\<lparr>in_simula_event_progress := True\<rparr> in
      if \<not> action_found ActionTable act_str then (Inl (InvalidAction (c_content act_str)), s)
      else
        (case SPI_execute (Upsert (c_content ope_str) (c_content act_str) n) s of
           (Inl e, s1) \<Rightarrow> (Inl e, s1)
         | (Inr res, s1) \<Rightarrow> (Inr (ret res \<noteq> 0), s1\<lparr>in_simula_event_progress := False\<rparr>)))"


text \<open>A backend at session start: both switches off, no hook installed before this one,
  nothing cached, no transaction open, the extension created and its relation empty.\<close>

definition idle_backend :: backend where
  "idle_backend =
     \<lparr>simulation_enabled = False, in_simula_event_progress = False,
      registered_to_callback = False, SimulaEvents = [],
      prev_planner = False, prev_ProcessUtility = False,
      IsTransactionState = False, extension_created = True,
      simula_events = [], spi_fault = None, trace = []\<rparr>"

subsection \<open>The spec's wording, for comparison with the code\<close>

text \<open>A cached rule as the struct declares it: both buffers have MAX_LENGTH bytes.\<close>

definition wf_event :: "SimulaEvent \<Rightarrow> bool" where
  "wf_event ev = (length (operation ev) = MAX_LENGTH \<and> length (action ev) = MAX_LENGTH)"

text \<open>The behaviour on record for an action name: the table entry whose name is the same
  ignoring case.\<close>

definition registered :: "string \<Rightarrow> act_func option" where
  "registered buf =
     map_option snd (find (\<lambda>(name, func). same_ignoring_case name buf) ActionTable)"

text \<open>A rule that dispatch can act on for a tag: its operation is the tag ignoring case and
  its action is on record.\<close>

definition recognized :: "string \<Rightarrow> SimulaEvent \<Rightarrow> bool" where
  "recognized commandTag ev =
     (same_ignoring_case (operation ev) commandTag \<and> registered (action ev) \<noteq> None)"

text \<open>A row that \<^verbatim>\<open>SPI_getvalue\<close> can hand over whole: no NULL in the action or the
  parameter.\<close>

definition no_null :: "row \<Rightarrow> bool" where
  "no_null r = (case r of (ope, act, n) \<Rightarrow> act \<noteq> None \<and> n \<noteq> None)"

text \<open>A buffer that holds the first MAX_LENGTH characters of a value and nothing else of
  it: the value cut to the maximum length.\<close>

definition truncated :: "string \<Rightarrow> string \<Rightarrow> bool" where
  "truncated buf src =
     (length buf = MAX_LENGTH \<and> c_content buf = take MAX_LENGTH (c_content src))"

text \<open>A cached rule that is the snapshot of a row: both strings cut to the maximum length,
  the parameter as stored.\<close>

definition snapshot_of :: "row \<Rightarrow> SimulaEvent \<Rightarrow> bool" where
  "snapshot_of r ev =
     (case r of (ope, act, n) \<Rightarrow>
        truncated (operation ev) ope \<and>
        (case act of None \<Rightarrow> False | Some act_str \<Rightarrow> truncated (action ev) act_str) \<and>
        n = Some (sec ev))"

section \<open>Strings: what the comparison and the copy compute\<close>

lemma pg_tolower_NUL [simp]: "pg_tolower c = NUL \<longleftrightarrow> c = NUL"
proof
  assume h: "pg_tolower c = NUL"
  show "c = NUL"
  proof (cases "(65::nat) \<le> of_char c \<and> of_char c \<le> (90::nat)")
    case True
    then have "pg_tolower c = char_of (of_char c + (32::nat))" by (simp add: pg_tolower_def)
    with h have "char_of (of_char c + (32::nat)) = NUL" by simp
    then have "(of_char (char_of (of_char c + (32::nat))) :: nat) = of_char NUL" by simp
    then have "(of_char c + (32::nat)) mod 256 = 0" by (simp add: NUL_def)
    with True show ?thesis by presburger
  next
    case False
    then have "pg_tolower c = c" unfolding pg_tolower_def by (rule if_not_P)
    with h show ?thesis by simp
  qed
next
  assume "c = NUL" then show "pg_tolower c = NUL" by (simp add: pg_tolower_def NUL_def)
qed

lemma c_content_Cons: "c_content (c # m) = (if c = NUL then [] else c # c_content m)"
  by (simp add: c_content_def)

lemma pg_strcasecmp_spec:
  "(NUL \<in> set m2 \<and> length (c_content m2) < length m1) \<or>
   (NUL \<in> set m1 \<and> length (c_content m1) < length m2) \<Longrightarrow>
   \<exists>d. pg_strcasecmp m1 m2 = Some d \<and>
       (d = 0 \<longleftrightarrow> map pg_tolower (c_content m1) = map pg_tolower (c_content m2))"
proof (induction m1 m2 rule: pg_strcasecmp.induct)
  case (1 c1 s1 c2 s2)
  show ?case
  proof (cases "c1 = c2")
    case True
    note eq = True
    show ?thesis
    proof (cases "c1 = NUL")
      case True
      with eq show ?thesis by (simp add: c_content_Cons)
    next
      case False
      with eq 1 show ?thesis by (auto simp: c_content_Cons)
    qed
  next
    case False
    note ne = False
    show ?thesis
    proof (cases "pg_tolower c1 = pg_tolower c2")
      case True
      with ne have nn: "c1 \<noteq> NUL" "c2 \<noteq> NUL"
        by (metis pg_tolower_NUL)+
      with ne True 1 show ?thesis by (auto simp: c_content_Cons Let_def)
    next
      case False
      with ne show ?thesis by (auto simp: c_content_Cons Let_def)
    qed
  qed
qed simp_all

lemma c_content_cstring [simp]: "c_content (cstring s) = c_content s"
  by (induction s) (auto simp: c_content_def cstring_def)

lemma NUL_in_cstring [simp]: "NUL \<in> set (cstring s)"
  by (simp add: cstring_def)

lemma length_cstring [simp]: "length (cstring s) = Suc (length (c_content s))"
  by (simp add: cstring_def c_content_def)

lemma pg_strcasecmp_cstring:
  "pg_strcasecmp (cstring a) (cstring b) = Some 0 \<longleftrightarrow> same_ignoring_case a b"
proof -
  have "length (c_content b) < length (cstring a) \<or> length (c_content a) < length (cstring b)"
    by (simp add: less_Suc_eq_le) linarith
  then have "\<exists>d. pg_strcasecmp (cstring a) (cstring b) = Some d \<and>
       (d = 0 \<longleftrightarrow> map pg_tolower (c_content (cstring a)) = map pg_tolower (c_content (cstring b)))"
    by (intro pg_strcasecmp_spec) auto
  then show ?thesis by (auto simp: same_ignoring_case_def)
qed

lemma pg_strcasecmp_buffer:
  assumes "length (c_content tag) < length buf"
  shows "\<exists>d. pg_strcasecmp buf (cstring tag) = Some d \<and> (d = 0 \<longleftrightarrow> same_ignoring_case buf tag)"
  using pg_strcasecmp_spec [of "cstring tag" buf] assms
  by (simp add: same_ignoring_case_def)

lemma pg_strcasecmp_name_buffer:
  assumes "length (c_content name) < length buf"
  shows "\<exists>d. pg_strcasecmp (cstring name) buf = Some d \<and> (d = 0 \<longleftrightarrow> same_ignoring_case name buf)"
  using pg_strcasecmp_spec [of buf "cstring name"] assms
  by (simp add: same_ignoring_case_def)

lemma strncpy_spec:
  "strncpy src n = take n (c_content src) @ replicate (n - length (c_content src)) NUL"
  by (induction src n rule: strncpy.induct) (auto simp: c_content_Cons c_content_def)

lemma length_strncpy [simp]: "length (strncpy src n) = n"
  by (simp add: strncpy_spec)

lemma c_content_padded:
  "\<forall>c \<in> set xs. c \<noteq> NUL \<Longrightarrow> c_content (xs @ replicate k NUL) = xs"
proof (induction xs)
  case Nil
  show ?case by (cases k) (simp_all add: c_content_def)
next
  case (Cons x xs)
  then show ?case by (simp add: c_content_Cons)
qed

lemma c_content_no_NUL: "c \<in> set (c_content m) \<Longrightarrow> c \<noteq> NUL"
  unfolding c_content_def by (auto dest: set_takeWhileD)

lemma c_content_strncpy: "c_content (strncpy src n) = take n (c_content src)"
  unfolding strncpy_spec
  by (rule c_content_padded) (auto dest: in_set_takeD c_content_no_NUL)

section \<open>Termination and unfolding of the hook recursion\<close>

lemma in_progress_register [simp]:
  "in_simula_event_progress (register_xact_callback s) = in_simula_event_progress s"
  by (simp add: register_xact_callback_def)

lemma in_progress_emit [simp]:
  "in_simula_event_progress (emit ev s) = in_simula_event_progress s"
  by (simp add: emit_def)

termination pg_simula_planner
proof (relation "measure (\<lambda>call. case call of
          Inl (Inl (_, s)) \<Rightarrow> (if in_simula_event_progress s then 0 else 3)
        | Inl (Inr (_, s)) \<Rightarrow> (if in_simula_event_progress s then 0 else 3)
        | Inr (Inl s) \<Rightarrow> (if in_simula_event_progress s then 2 else 5)
        | Inr (Inr (_, s)) \<Rightarrow> (if in_simula_event_progress s then 1 else 4))",
       goal_cases)
  case 1
  show ?case by simp
qed (auto simp: needReloadAndEvent_def)

declare pg_simula_planner.simps [simp del] pg_simula_ProcessUtility.simps [simp del]
  reloadEventTableData.simps [simp del] SPI_execute.simps [simp del]

lemma need_register [simp]:
  "needReloadAndEvent tag (register_xact_callback s) = needReloadAndEvent tag s"
  by (simp add: needReloadAndEvent_def register_xact_callback_def)

lemma planner_without_cycle:
  "\<not> needReloadAndEvent tag s \<Longrightarrow>
   pg_simula_planner tag s = call_next_planner tag (register_xact_callback s)"
  by (simp add: pg_simula_planner.simps)

lemma utility_without_cycle:
  "\<not> needReloadAndEvent tag s \<Longrightarrow>
   pg_simula_ProcessUtility tag s = call_next_ProcessUtility tag (register_xact_callback s)"
  by (simp add: pg_simula_ProcessUtility.simps)

lemma need_in_progress:
  "in_simula_event_progress s \<Longrightarrow> \<not> needReloadAndEvent tag s"
  by (simp add: needReloadAndEvent_def)

lemma SPI_execute_raises:
  "spi_fault s = Some SPIRaises \<Longrightarrow>
   SPI_execute st s = (Inl (StorageRaised st), emit (SPIExecute st) s)"
  by (simp add: SPI_execute.simps emit_def)

lemma SPI_execute_returns_error:
  "spi_fault s = Some (SPIReturnsError n) \<Longrightarrow>
   SPI_execute st s =
     (Inr \<lparr>ret = - int n - 1, SPI_processed = 0, SPI_tuptable = None\<rparr>, emit (SPIExecute st) s)"
  by (simp add: SPI_execute.simps emit_def)



lemma planner_in_progress:
  "in_simula_event_progress s \<Longrightarrow>
   pg_simula_planner tag s = call_next_planner tag (register_xact_callback s)"
  by (rule planner_without_cycle) (rule need_in_progress)

lemma utility_in_progress:
  "in_simula_event_progress s \<Longrightarrow>
   pg_simula_ProcessUtility tag s = call_next_ProcessUtility tag (register_xact_callback s)"
  by (rule utility_without_cycle) (rule need_in_progress)

lemma SPI_execute_select_in_progress:
  assumes "in_simula_event_progress s" and "spi_fault s = None"
  shows "SPI_execute SelectAll s =
     (Inr \<lparr>ret = SPI_OK_SELECT, SPI_processed = length (simula_events s),
           SPI_tuptable = Some (simula_events s)\<rparr>,
      snd (call_next_planner ''SELECT'' (register_xact_callback (emit (SPIExecute SelectAll) s))))"
proof -
  have "in_simula_event_progress (emit (SPIExecute SelectAll) s)"
    using assms by simp
  note hook = planner_in_progress [OF this]
  have "spi_fault (emit (SPIExecute SelectAll) s) = None"
    using assms by (simp add: emit_def)
  then show ?thesis
    apply (subst SPI_execute.simps)
    apply (simp add: Let_def hook)
    apply (simp add: call_next_planner_def emit_def register_xact_callback_def)
    done
qed

lemma SPI_execute_upsert_in_progress:
  assumes "in_simula_event_progress s" and "spi_fault s = None"
  shows "SPI_execute (Upsert ope act n) s =
     (Inr \<lparr>ret = SPI_OK_INSERT, SPI_processed = 1, SPI_tuptable = None\<rparr>,
      (snd (call_next_planner ''INSERT''
          (register_xact_callback (emit (SPIExecute (Upsert ope act n)) s))))
       \<lparr>simula_events := upsert_row ope act n (simula_events s)\<rparr>)"
proof -
  have "in_simula_event_progress (emit (SPIExecute (Upsert ope act n)) s)"
    using assms by simp
  note hook = planner_in_progress [OF this]
  have "spi_fault (emit (SPIExecute (Upsert ope act n)) s) = None"
    using assms by (simp add: emit_def)
  then show ?thesis
    apply (subst SPI_execute.simps)
    apply (simp add: Let_def hook)
    apply (simp add: call_next_planner_def emit_def register_xact_callback_def)
    done
qed

lemma SPI_execute_truncate_in_progress:
  assumes "in_simula_event_progress s" and "spi_fault s = None"
  shows "SPI_execute Truncate s =
     (Inr \<lparr>ret = SPI_OK_UTILITY, SPI_processed = 0, SPI_tuptable = None\<rparr>,
      (snd (call_next_ProcessUtility ''TRUNCATE TABLE''
          (register_xact_callback (emit (SPIExecute Truncate) s))))
       \<lparr>simula_events := []\<rparr>)"
proof -
  have "in_simula_event_progress (emit (SPIExecute Truncate) s)"
    using assms by simp
  note hook = utility_in_progress [OF this]
  have "spi_fault (emit (SPIExecute Truncate) s) = None"
    using assms by (simp add: emit_def)
  then show ?thesis
    apply (subst SPI_execute.simps)
    apply (simp add: Let_def hook)
    apply (simp add: call_next_ProcessUtility_def emit_def register_xact_callback_def)
    done
qed

subsection \<open>The dispatcher against the spec's wording\<close>

lemma find_action_table:
  "\<forall>(name, func) \<in> set tbl. length (c_content name) < length buf \<Longrightarrow>
   find_action tbl buf =
     Inr (map_option snd (find (\<lambda>(name, func). same_ignoring_case name buf) tbl))"
proof (induction tbl)
  case Nil
  show ?case by simp
next
  case (Cons entry tbl)
  obtain name func where entry: "entry = (name, func)" by (cases entry)
  with Cons.prems have "length (c_content name) < length buf" by simp
  from pg_strcasecmp_name_buffer [OF this]
  obtain d where d: "pg_strcasecmp (cstring name) buf = Some d"
    "d = 0 \<longleftrightarrow> same_ignoring_case name buf" by blast
  from Cons have "find_action tbl buf =
     Inr (map_option snd (find (\<lambda>(name, func). same_ignoring_case name buf) tbl))"
    by simp
  with d entry show ?case by simp
qed

lemma find_action_registered:
  "length buf = MAX_LENGTH \<Longrightarrow> find_action ActionTable buf = Inr (registered buf)"
  unfolding registered_def
  by (rule find_action_table) (simp add: ActionTable_def MAX_LENGTH_def c_content_def NUL_def)

lemma doEventIfAny_loop_step:
  assumes "wf_event ev" and "length (c_content tag) < MAX_LENGTH"
  shows "doEventIfAny_loop tag (ev # cells) s =
    (if same_ignoring_case (operation ev) tag then
       (case registered (action ev) of
          Some func \<Rightarrow> func (sec ev) s
        | None \<Rightarrow> doEventIfAny_loop tag cells s)
     else doEventIfAny_loop tag cells s)"
proof -
  from assms have "length (c_content tag) < length (operation ev)"
    by (simp add: wf_event_def)
  from pg_strcasecmp_buffer [OF this]
  obtain d where d: "pg_strcasecmp (operation ev) (cstring tag) = Some d"
    "d = 0 \<longleftrightarrow> same_ignoring_case (operation ev) tag" by blast
  from assms have "find_action ActionTable (action ev) = Inr (registered (action ev))"
    by (simp add: find_action_registered wf_event_def)
  with d show ?thesis by (simp split: option.splits)
qed

lemma doEventIfAny_loop_find:
  assumes "list_all wf_event cells" and "length (c_content tag) < MAX_LENGTH"
  shows "doEventIfAny_loop tag cells s =
    (case find (recognized tag) cells of
       None \<Rightarrow> (Inr (), s)
     | Some ev \<Rightarrow> (case registered (action ev) of
                     Some func \<Rightarrow> func (sec ev) s
                   | None \<Rightarrow> (Inr (), s)))"
  using assms(1)
proof (induction cells)
  case Nil
  show ?case by simp
next
  case (Cons ev cells)
  then have "wf_event ev" and "list_all wf_event cells" by simp_all
  with Cons.IH assms(2) show ?case
    by (simp add: doEventIfAny_loop_step recognized_def del: doEventIfAny_loop.simps
        split: option.splits)
qed

lemma wf_new_SimulaEvent [simp]: "wf_event (new_SimulaEvent ope act n)"
  by (simp add: wf_event_def new_SimulaEvent_def)

lemma registered_bogus: "registered (action (new_SimulaEvent ope ''bogus'' n)) = None"
proof -
  have "\<not> same_ignoring_case ''error'' (strncpy ''bogus'' MAX_LENGTH)"
    "\<not> same_ignoring_case ''panic'' (strncpy ''bogus'' MAX_LENGTH)"
    "\<not> same_ignoring_case ''wait'' (strncpy ''bogus'' MAX_LENGTH)"
    "\<not> same_ignoring_case ''fatal'' (strncpy ''bogus'' MAX_LENGTH)"
    by code_simp+
  then show ?thesis
    by (simp add: registered_def ActionTable_def new_SimulaEvent_def)
qed

lemma snapshot_of_new_SimulaEvent:
  "snapshot_of (ope, Some act, Some n) (new_SimulaEvent ope act n)"
  by (simp add: snapshot_of_def truncated_def new_SimulaEvent_def c_content_strncpy)

lemma load_rows_Inr:
  "load_rows vals s = (Inr u, s') \<Longrightarrow>
   \<exists>evs. list_all2 snapshot_of vals evs \<and> s' = s\<lparr>SimulaEvents := SimulaEvents s @ evs\<rparr>"
proof (induction vals arbitrary: s)
  case Nil
  then show ?case by simp
next
  case (Cons r vals)
  obtain ope act n where r: "r = (ope, act, n)" by (cases r)
  with Cons.prems obtain act_str n_val where some: "act = Some act_str" "n = Some n_val"
    by (auto split: option.splits)
  let ?s1 = "s\<lparr>SimulaEvents := SimulaEvents s @ [new_SimulaEvent ope act_str n_val]\<rparr>"
  from Cons.prems r some have "load_rows vals ?s1 = (Inr u, s')" by simp
  from Cons.IH [OF this] obtain evs where evs: "list_all2 snapshot_of vals evs"
    "s' = ?s1\<lparr>SimulaEvents := SimulaEvents ?s1 @ evs\<rparr>" by blast
  from evs(1) r some have "list_all2 snapshot_of (r # vals) (new_SimulaEvent ope act_str n_val # evs)"
    by (simp add: snapshot_of_new_SimulaEvent)
  moreover from evs(2)
  have "s' = s\<lparr>SimulaEvents := SimulaEvents s @ new_SimulaEvent ope act_str n_val # evs\<rparr>"
    by simp
  ultimately show ?case by blast
qed

lemma reload_not_created:
  "\<not> extension_created s \<Longrightarrow> reloadEventTableData s = (Inr (), s\<lparr>SimulaEvents := []\<rparr>)"
  by (subst reloadEventTableData.simps) (simp add: isPgSimulaLoaded_def)

lemma reload_raises:
  assumes "extension_created s" and "spi_fault s = Some SPIRaises"
  shows "reloadEventTableData s =
    (Inl (StorageRaised SelectAll), emit (SPIExecute SelectAll) (s\<lparr>SimulaEvents := []\<rparr>))"
proof -
  have "spi_fault (s\<lparr>SimulaEvents := []\<rparr>) = Some SPIRaises" using assms by simp
  from SPI_execute_raises [OF this] assms(1) show ?thesis
    by (subst reloadEventTableData.simps) (simp add: isPgSimulaLoaded_def)
qed

lemma reload_returns_error:
  assumes "extension_created s" and "spi_fault s = Some (SPIReturnsError k)"
  shows "reloadEventTableData s =
    (Inl (SPIExecuteFailed (- int k - 1)), emit (SPIExecute SelectAll) (s\<lparr>SimulaEvents := []\<rparr>))"
proof -
  have "spi_fault (s\<lparr>SimulaEvents := []\<rparr>) = Some (SPIReturnsError k)" using assms by simp
  from SPI_execute_returns_error [OF this] assms(1) show ?thesis
    by (subst reloadEventTableData.simps) (simp add: isPgSimulaLoaded_def SPI_OK_SELECT_def)
qed

lemma reload_in_progress:
  assumes "in_simula_event_progress s" and "extension_created s" and "spi_fault s = None"
  shows "reloadEventTableData s =
    load_rows (simula_events s)
      (snd (call_next_planner ''SELECT''
         (register_xact_callback (emit (SPIExecute SelectAll) (s\<lparr>SimulaEvents := []\<rparr>)))))"
proof -
  have "in_simula_event_progress (s\<lparr>SimulaEvents := []\<rparr>)"
    and "spi_fault (s\<lparr>SimulaEvents := []\<rparr>) = None"
    using assms by simp_all
  from SPI_execute_select_in_progress [OF this] assms(2) show ?thesis
    by (subst reloadEventTableData.simps) (simp add: isPgSimulaLoaded_def SPI_OK_SELECT_def)
qed

lemma planner_with_cycle:
  "needReloadAndEvent tag s \<Longrightarrow>
   pg_simula_planner tag s =
     (case reloadEventTableData ((register_xact_callback s)\<lparr>in_simula_event_progress := True\<rparr>) of
        (Inl e, s1) \<Rightarrow> (Inl e, s1)
      | (Inr _, s1) \<Rightarrow>
          (case doEventIfAny tag s1 of
             (Inl e, s2) \<Rightarrow> (Inl e, s2)
           | (Inr _, s2) \<Rightarrow> call_next_planner tag (s2\<lparr>in_simula_event_progress := False\<rparr>)))"
  by (subst pg_simula_planner.simps) (simp add: Let_def)

lemma utility_with_cycle:
  "needReloadAndEvent tag s \<Longrightarrow>
   pg_simula_ProcessUtility tag s =
     (case reloadEventTableData ((register_xact_callback s)\<lparr>in_simula_event_progress := True\<rparr>) of
        (Inl e, s1) \<Rightarrow> (Inl e, s1)
      | (Inr _, s1) \<Rightarrow>
          (case doEventIfAny tag s1 of
             (Inl e, s2) \<Rightarrow> (Inl e, s2)
           | (Inr _, s2) \<Rightarrow>
               call_next_ProcessUtility tag (s2\<lparr>in_simula_event_progress := False\<rparr>)))"
  by (subst pg_simula_ProcessUtility.simps) (simp add: Let_def)

lemma find_action_in_table:
  "find_action tbl buf = Inr (Some func) \<Longrightarrow> func \<in> snd ` set tbl"
  by (induction tbl) (auto split: option.splits if_splits)

lemma action_frame:
  assumes "func \<in> snd ` set ActionTable" and "func n s = (r, s')"
  shows "s' = s \<or> (\<exists>k. s' = emit (PgUsleep k) s)"
  using assms
  by (auto simp: ActionTable_def error_func_def panic_func_def wait_func_def fatal_func_def)

lemma doEventIfAny_loop_frame:
  "doEventIfAny_loop tag cells s = (r, s') \<Longrightarrow> s' = s \<or> (\<exists>k. s' = emit (PgUsleep k) s)"
proof (induction cells)
  case Nil
  then show ?case by simp
next
  case (Cons ev cells)
  show ?case
  proof (cases "pg_strcasecmp (operation ev) (cstring tag)")
    case None
    with Cons.prems show ?thesis by simp
  next
    case (Some d)
    show ?thesis
    proof (cases "d = 0")
      case False
      with Some Cons show ?thesis by simp
    next
      case True
      show ?thesis
      proof (cases "find_action ActionTable (action ev)")
        case (Inl e)
        with Some True Cons.prems show ?thesis by simp
      next
        case (Inr found)
        show ?thesis
        proof (cases found)
          case None
          with Inr Some True Cons show ?thesis by simp
        next
          case (Some func)
          with Inr have "func \<in> snd ` set ActionTable"
            by (simp add: find_action_in_table)
          moreover from Some Inr \<open>pg_strcasecmp (operation ev) (cstring tag) = Some d\<close> True
            Cons.prems
          have "func (sec ev) s = (r, s')" by simp
          ultimately show ?thesis by (rule action_frame)
        qed
      qed
    qed
  qed
qed

lemma doEventIfAny_prev:
  assumes "doEventIfAny tag s = (r, s')"
  shows "prev_planner s' = prev_planner s" and "prev_ProcessUtility s' = prev_ProcessUtility s"
  using doEventIfAny_loop_frame [OF assms [unfolded doEventIfAny_def]]
  by (auto simp: emit_def)

lemma load_rows_prev:
  assumes "load_rows vals s = (Inr u, s')"
  shows "prev_planner s' = prev_planner s" and "prev_ProcessUtility s' = prev_ProcessUtility s"
  using load_rows_Inr [OF assms] by auto

lemma reload_prev:
  assumes "in_simula_event_progress s" and "reloadEventTableData s = (Inr u, s')"
  shows "prev_planner s' = prev_planner s" and "prev_ProcessUtility s' = prev_ProcessUtility s"
proof -
  have "prev_planner s' = prev_planner s \<and> prev_ProcessUtility s' = prev_ProcessUtility s"
  proof (cases "extension_created s")
    case False
    with assms(2) have "s' = s\<lparr>SimulaEvents := []\<rparr>" by (simp add: reload_not_created)
    then show ?thesis by simp
  next
    case True
    show ?thesis
    proof (cases "spi_fault s")
      case None
      with assms True load_rows_prev [of "simula_events s" _ u s'] show ?thesis
        by (simp add: reload_in_progress call_next_planner_def register_xact_callback_def
            emit_def split: if_splits)
    next
      case (Some f)
      with assms(2) True show ?thesis
        by (cases f) (simp_all add: reload_raises reload_returns_error)
    qed
  qed
  then show "prev_planner s' = prev_planner s"
    and "prev_ProcessUtility s' = prev_ProcessUtility s" by simp_all
qed


lemma planner_forwards:
  "case pg_simula_planner tag s of
     (Inr _, s') \<Rightarrow>
       trace s' \<noteq> [] \<and>
       last (trace s') = PlannerCalled (if prev_planner s then Previous else Standard) tag
   | (Inl e, s') \<Rightarrow>
       needReloadAndEvent tag s \<and>
       (reloadEventTableData ((register_xact_callback s)\<lparr>in_simula_event_progress := True\<rparr>) =
          (Inl e, s') \<or>
        (\<exists>s1. reloadEventTableData
                 ((register_xact_callback s)\<lparr>in_simula_event_progress := True\<rparr>) =
                (Inr (), s1) \<and>
              doEventIfAny tag s1 = (Inl e, s')))"
proof (cases "needReloadAndEvent tag s")
  case False
  then show ?thesis
    by (simp add: planner_without_cycle call_next_planner_def emit_def register_xact_callback_def)
next
  case True
  let ?s0 = "(register_xact_callback s)\<lparr>in_simula_event_progress := True\<rparr>"
  obtain r1 s1 where reload: "reloadEventTableData ?s0 = (r1, s1)" by (cases "reloadEventTableData ?s0")
  show ?thesis
  proof (cases r1)
    case (Inl e)
    with True reload show ?thesis by (simp add: planner_with_cycle)
  next
    case (Inr u)
    with reload have ok: "reloadEventTableData ?s0 = (Inr (), s1)" by simp
    have "in_simula_event_progress ?s0" by simp
    from reload_prev(1) [OF this ok] have p1: "prev_planner s1 = prev_planner s"
      by (simp add: register_xact_callback_def)
    obtain r2 s2 where event: "doEventIfAny tag s1 = (r2, s2)" by (cases "doEventIfAny tag s1")
    from doEventIfAny_prev(1) [OF this] p1 have p2: "prev_planner s2 = prev_planner s" by simp
    show ?thesis
    proof (cases r2)
      case (Inl e)
      with True ok event show ?thesis by (simp add: planner_with_cycle)
    next
      case (Inr v)
      with True ok event p2 show ?thesis
        by (simp add: planner_with_cycle call_next_planner_def emit_def)
    qed
  qed
qed

lemma utility_forwards:
  "case pg_simula_ProcessUtility tag s of
     (Inr _, s') \<Rightarrow>
       trace s' \<noteq> [] \<and>
       last (trace s') = UtilityCalled (if prev_ProcessUtility s then Previous else Standard) tag
   | (Inl e, s') \<Rightarrow>
       needReloadAndEvent tag s \<and>
       (reloadEventTableData ((register_xact_callback s)\<lparr>in_simula_event_progress := True\<rparr>) =
          (Inl e, s') \<or>
        (\<exists>s1. reloadEventTableData
                 ((register_xact_callback s)\<lparr>in_simula_event_progress := True\<rparr>) =
                (Inr (), s1) \<and>
              doEventIfAny tag s1 = (Inl e, s')))"
proof (cases "needReloadAndEvent tag s")
  case False
  then show ?thesis
    by (simp add: utility_without_cycle call_next_ProcessUtility_def emit_def
        register_xact_callback_def)
next
  case True
  let ?s0 = "(register_xact_callback s)\<lparr>in_simula_event_progress := True\<rparr>"
  obtain r1 s1 where reload: "reloadEventTableData ?s0 = (r1, s1)" by (cases "reloadEventTableData ?s0")
  show ?thesis
  proof (cases r1)
    case (Inl e)
    with True reload show ?thesis by (simp add: utility_with_cycle)
  next
    case (Inr u)
    with reload have ok: "reloadEventTableData ?s0 = (Inr (), s1)" by simp
    have "in_simula_event_progress ?s0" by simp
    from reload_prev(2) [OF this ok] have p1: "prev_ProcessUtility s1 = prev_ProcessUtility s"
      by (simp add: register_xact_callback_def)
    obtain r2 s2 where event: "doEventIfAny tag s1 = (r2, s2)" by (cases "doEventIfAny tag s1")
    from doEventIfAny_prev(2) [OF this] p1
    have p2: "prev_ProcessUtility s2 = prev_ProcessUtility s" by simp
    show ?thesis
    proof (cases r2)
      case (Inl e)
      with True ok event show ?thesis by (simp add: utility_with_cycle)
    next
      case (Inr v)
      with True ok event p2 show ?thesis
        by (simp add: utility_with_cycle call_next_ProcessUtility_def emit_def)
    qed
  qed
qed

lemma action_found_table:
  "action_found tbl act \<longleftrightarrow>
   find (\<lambda>(name, func). same_ignoring_case name act) tbl \<noteq> None"
  by (induction tbl) (auto simp: pg_strcasecmp_cstring)

lemma action_found_registered: "action_found ActionTable act \<longleftrightarrow> registered act \<noteq> None"
  by (simp add: action_found_table registered_def)

lemma add_unknown:
  "registered act = None \<Longrightarrow>
   add_simula_event ope act n s =
     (Inl (InvalidAction (c_content act)), s\<lparr>in_simula_event_progress := True\<rparr>)"
  by (simp add: add_simula_event_def action_found_registered)

lemma add_executed:
  assumes "registered act \<noteq> None" and "spi_fault s = None"
  shows "add_simula_event ope act n s =
     (Inr True,
      (snd (call_next_planner ''INSERT''
         (register_xact_callback
            (emit (SPIExecute (Upsert (c_content ope) (c_content act) n))
               (s\<lparr>in_simula_event_progress := True\<rparr>)))))
       \<lparr>simula_events := upsert_row (c_content ope) (c_content act) n (simula_events s),
        in_simula_event_progress := False\<rparr>)"
proof -
  have "in_simula_event_progress (s\<lparr>in_simula_event_progress := True\<rparr>)"
    and "spi_fault (s\<lparr>in_simula_event_progress := True\<rparr>) = None"
    using assms by simp_all
  from SPI_execute_upsert_in_progress [OF this] assms(1) show ?thesis
    by (simp add: add_simula_event_def action_found_registered SPI_OK_INSERT_def)
qed

lemma add_raises:
  assumes "registered act \<noteq> None" and "spi_fault s = Some SPIRaises"
  shows "add_simula_event ope act n s =
     (Inl (StorageRaised (Upsert (c_content ope) (c_content act) n)),
      emit (SPIExecute (Upsert (c_content ope) (c_content act) n))
        (s\<lparr>in_simula_event_progress := True\<rparr>))"
proof -
  have "spi_fault (s\<lparr>in_simula_event_progress := True\<rparr>) = Some SPIRaises"
    using assms by simp
  from SPI_execute_raises [OF this] assms(1) show ?thesis
    by (simp add: add_simula_event_def action_found_registered)
qed

lemma add_returns_error:
  assumes "registered act \<noteq> None" and "spi_fault s = Some (SPIReturnsError k)"
  shows "add_simula_event ope act n s =
     (Inr True,
      (emit (SPIExecute (Upsert (c_content ope) (c_content act) n))
        (s\<lparr>in_simula_event_progress := True\<rparr>))\<lparr>in_simula_event_progress := False\<rparr>)"
proof -
  have "spi_fault (s\<lparr>in_simula_event_progress := True\<rparr>) = Some (SPIReturnsError k)"
    using assms by simp
  from SPI_execute_returns_error [OF this] assms(1) show ?thesis
    by (simp add: add_simula_event_def action_found_registered)
qed






lemma upsert_row_other:
  "filter (\<lambda>r. fst r \<noteq> k) (upsert_row k a m rows) = filter (\<lambda>r. fst r \<noteq> k) rows"
  by (induction rows) auto

lemma upsert_row_keys:
  "map fst (upsert_row k a m rows) =
     (if k \<in> set (map fst rows) then map fst rows else map fst rows @ [k])"
proof (induction rows)
  case Nil
  show ?case by simp
next
  case (Cons r rows)
  obtain k' a' m' where "r = (k', a', m')" by (cases r)
  with Cons show ?case by auto
qed

lemma upsert_row_distinct:
  "distinct (map fst rows) \<Longrightarrow> distinct (map fst (upsert_row k a m rows))"
  by (simp add: upsert_row_keys)

lemma filter_absent_key: "k \<notin> fst ` set rows \<Longrightarrow> filter (\<lambda>r. fst r = k) rows = []"
  by (induction rows) auto

lemma upsert_row_key:
  "distinct (map fst rows) \<Longrightarrow>
   filter (\<lambda>r. fst r = k) (upsert_row k a m rows) = [(k, Some a, Some m)]"
proof (induction rows)
  case Nil
  show ?case by simp
next
  case (Cons r rows)
  obtain k' a' m' where r: "r = (k', a', m')" by (cases r)
  show ?case
  proof (cases "k' = k")
    case True
    with Cons.prems r have "k \<notin> fst ` set rows" by auto
    with True r show ?thesis by (simp add: filter_absent_key)
  next
    case False
    with Cons r show ?thesis by simp
  qed
qed

lemma add_preserves_fault:
  "spi_fault (snd (add_simula_event ope act n s)) = spi_fault s"
proof (cases "registered act")
  case None
  then show ?thesis by (simp add: add_unknown)
next
  case (Some func)
  then have known: "registered act \<noteq> None" by simp
  show ?thesis
  proof (cases "spi_fault s")
    case None
    with known show ?thesis
      by (simp add: add_executed call_next_planner_def register_xact_callback_def emit_def)
  next
    case (Some f)
    with known show ?thesis
      by (cases f) (simp_all add: add_raises add_returns_error emit_def)
  qed
qed

lemma registered_wait: "registered ''WAIT'' \<noteq> None" "registered ''error'' \<noteq> None"
proof -
  have "action_found ActionTable ''WAIT''" "action_found ActionTable ''error''"
    by code_simp+
  then show "registered ''WAIT'' \<noteq> None" "registered ''error'' \<noteq> None"
    by (simp_all add: action_found_registered)
qed

subsection \<open>Outcomes of the refresh, causes of an error, registration of the callback\<close>


lemma load_rows_outcome:
  "fst (load_rows vals s) = (if list_all no_null vals then Inr () else Inl NullDereference)"
proof (induction vals arbitrary: s)
  case Nil
  show ?case by simp
next
  case (Cons row vals)
  obtain ope act n where row: "row = (ope, act, n)" by (cases row)
  show ?case
  proof (cases "no_null row")
    case False
    with row show ?thesis by (auto simp: no_null_def split: option.splits)
  next
    case True
    with row obtain act_str n_val where some: "act = Some act_str" "n = Some n_val"
      by (auto simp: no_null_def)
    with True row Cons.IH show ?thesis by simp
  qed
qed

lemma reload_outcome:
  assumes "in_simula_event_progress s"
  shows "fst (reloadEventTableData s) =
    (if \<not> extension_created s then Inr ()
     else case spi_fault s of
       Some SPIRaises \<Rightarrow> Inl (StorageRaised SelectAll)
     | Some (SPIReturnsError k) \<Rightarrow> Inl (SPIExecuteFailed (- int k - 1))
     | None \<Rightarrow> if list_all no_null (simula_events s) then Inr () else Inl NullDereference)"
proof (cases "extension_created s")
  case False
  then show ?thesis by (simp add: reload_not_created)
next
  case True
  show ?thesis
  proof (cases "spi_fault s")
    case None
    with assms True show ?thesis by (simp add: reload_in_progress load_rows_outcome)
  next
    case (Some f)
    with True show ?thesis
      by (cases f) (simp_all add: reload_raises reload_returns_error)
  qed
qed

lemma reload_snapshot:
  assumes "in_simula_event_progress s" and "reloadEventTableData s = (Inr u, s')"
  shows "if extension_created s
         then list_all2 snapshot_of (simula_events s) (SimulaEvents s')
         else SimulaEvents s' = []"
proof (cases "extension_created s")
  case False
  with assms(2) have "s' = s\<lparr>SimulaEvents := []\<rparr>" by (simp add: reload_not_created)
  with False show ?thesis by simp
next
  case True
  show ?thesis
  proof (cases "spi_fault s")
    case None
    let ?s0 = "snd (call_next_planner ''SELECT''
         (register_xact_callback (emit (SPIExecute SelectAll) (s\<lparr>SimulaEvents := []\<rparr>))))"
    from assms True None have "load_rows (simula_events s) ?s0 = (Inr u, s')"
      by (simp add: reload_in_progress)
    from load_rows_Inr [OF this] obtain evs
      where "list_all2 snapshot_of (simula_events s) evs"
        and "s' = ?s0\<lparr>SimulaEvents := SimulaEvents ?s0 @ evs\<rparr>" by blast
    moreover have "SimulaEvents ?s0 = []"
      by (simp add: call_next_planner_def register_xact_callback_def emit_def)
    ultimately show ?thesis using True by simp
  next
    case (Some f)
    with assms(2) True show ?thesis
      by (cases f) (simp_all add: reload_raises reload_returns_error)
  qed
qed

lemma find_in_set: "find P xs = Some x \<Longrightarrow> x \<in> set xs"
  by (induction xs) (auto split: if_splits)

lemma registered_in_table: "registered buf = Some func \<Longrightarrow> func \<in> snd ` set ActionTable"
proof -
  assume "registered buf = Some func"
  then obtain entry
    where found: "find (\<lambda>(name, func). same_ignoring_case name buf) ActionTable = Some entry"
      and func: "func = snd entry"
    by (auto simp: registered_def)
  from found have "entry \<in> set ActionTable" by (rule find_in_set)
  with func show ?thesis by simp
qed

lemma action_abort:
  assumes "func \<in> snd ` set ActionTable" and "func n s = (Inl e, s')"
  shows "e = SimulatedERROR \<or> e = SimulatedPANIC \<or> e = SimulatedFATAL"
  using assms
  by (auto simp: ActionTable_def error_func_def panic_func_def wait_func_def fatal_func_def)

lemma snapshot_wf: "list_all2 snapshot_of vals evs \<Longrightarrow> list_all wf_event evs"
proof (induction vals evs rule: list_all2_induct)
  case Nil
  show ?case by simp
next
  case (Cons r vals ev evs)
  then show ?case
    by (auto simp: snapshot_of_def truncated_def wf_event_def split: option.splits)
qed

lemma reload_wf:
  assumes "in_simula_event_progress s" and "reloadEventTableData s = (Inr u, s')"
  shows "list_all wf_event (SimulaEvents s')"
  using reload_snapshot [OF assms] by (auto dest: snapshot_wf split: if_splits)

lemma refresh_error:
  assumes "in_simula_event_progress s" and "list_all no_null (simula_events s)"
    and "reloadEventTableData s = (Inl e, s')"
  shows "extension_created s \<and> spi_fault s \<noteq> None \<and>
    (e = StorageRaised SelectAll \<or> (\<exists>k. e = SPIExecuteFailed (- int k - 1)))"
proof -
  from assms(3) have "fst (reloadEventTableData s) = Inl e" by simp
  with reload_outcome [OF assms(1)] assms(2) show ?thesis
    by (auto split: if_splits option.splits spi_fault.splits)
qed

lemma dispatch_error:
  assumes "list_all wf_event (SimulaEvents s)" and "length (c_content tag) < MAX_LENGTH"
    and "doEventIfAny tag s = (Inl e, s')"
  shows "\<exists>ev func. find (recognized tag) (SimulaEvents s) = Some ev \<and>
    registered (action ev) = Some func \<and> func (sec ev) s = (Inl e, s') \<and>
    (e = SimulatedERROR \<or> e = SimulatedPANIC \<or> e = SimulatedFATAL)"
proof -
  from assms(3) doEventIfAny_loop_find [OF assms(1,2), of s]
  have eq: "(case find (recognized tag) (SimulaEvents s) of
       None \<Rightarrow> (Inr (), s)
     | Some ev \<Rightarrow> (case registered (action ev) of
                     Some func \<Rightarrow> func (sec ev) s
                   | None \<Rightarrow> (Inr (), s))) = (Inl e, s')"
    by (simp add: doEventIfAny_def)
  then obtain ev where ev: "find (recognized tag) (SimulaEvents s) = Some ev"
    by (cases "find (recognized tag) (SimulaEvents s)") auto
  with eq obtain func where func: "registered (action ev) = Some func"
    by (cases "registered (action ev)") auto
  with eq ev have run: "func (sec ev) s = (Inl e, s')" by simp
  from action_abort [OF registered_in_table [OF func] run] ev func run show ?thesis by blast
qed

lemma cycle_error:
  assumes need: "needReloadAndEvent tag s"
    and rows: "list_all no_null (simula_events s)"
    and tag: "length (c_content tag) < MAX_LENGTH"
    and raised: "reloadEventTableData ((register_xact_callback s)\<lparr>in_simula_event_progress := True\<rparr>) =
          (Inl e, s') \<or>
        (\<exists>s1. reloadEventTableData
                 ((register_xact_callback s)\<lparr>in_simula_event_progress := True\<rparr>) =
                (Inr (), s1) \<and>
              doEventIfAny tag s1 = (Inl e, s'))"
  shows "extension_created s \<and> spi_fault s \<noteq> None \<and>
      (e = StorageRaised SelectAll \<or> (\<exists>k. e = SPIExecuteFailed (- int k - 1))) \<or>
    (\<exists>s1 ev func.
        reloadEventTableData ((register_xact_callback s)\<lparr>in_simula_event_progress := True\<rparr>) =
          (Inr (), s1) \<and>
        find (recognized tag) (SimulaEvents s1) = Some ev \<and>
        registered (action ev) = Some func \<and> func (sec ev) s1 = (Inl e, s') \<and>
        (e = SimulatedERROR \<or> e = SimulatedPANIC \<or> e = SimulatedFATAL))"
proof -
  let ?s0 = "(register_xact_callback s)\<lparr>in_simula_event_progress := True\<rparr>"
  have flag: "in_simula_event_progress ?s0" by simp
  have same: "simula_events ?s0 = simula_events s" "extension_created ?s0 = extension_created s"
    "spi_fault ?s0 = spi_fault s"
    by (simp_all add: register_xact_callback_def)
  from raised show ?thesis
  proof
    assume "reloadEventTableData ?s0 = (Inl e, s')"
    from refresh_error [OF flag _ this] rows same show ?thesis by simp
  next
    assume "\<exists>s1. reloadEventTableData ?s0 = (Inr (), s1) \<and> doEventIfAny tag s1 = (Inl e, s')"
    then obtain s1 where ok: "reloadEventTableData ?s0 = (Inr (), s1)"
      and event: "doEventIfAny tag s1 = (Inl e, s')" by blast
    from dispatch_error [OF reload_wf [OF flag ok] tag event] ok show ?thesis by blast
  qed
qed







lemma wait_func_exact_in_range:
  assumes "0 \<le> sint n" and "sint n \<le> 2147"
  shows "wait_func n s = (Inr (), emit (PgUsleep (sint n * 1000000)) s)"
proof -
  have "n * 1000 * 1000 = n * 1000000"
    by simp
  then have "sint (n * 1000 * 1000) = signed_take_bit 31 (sint n * 1000000)"
    by (simp add: sint_word_ariths mult.commute)
  also have "\<dots> = sint n * 1000000"
    using assms by (intro signed_take_bit_int_eq_self) simp_all
  finally show ?thesis
    by (simp add: wait_func_def)
qed

section \<open>The claims\<close>

subsection \<open>The guard predicate and the flag\<close>

text \<open>
  Claim C1. \<open>needReloadAndEvent\<close> holds for a command tag exactly when fault injection
  is enabled, the flag \<open>in_simula_event_progress\<close> is clear, a transaction is in progress
  and the tag is neither BEGIN nor START TRANSACTION, letters compared without regard to
  case. When fault injection is off, or the tag is one of the two, each hook does nothing
  but register the callback and call the next handler: no refresh, no dispatch.
\<close>

theorem guard_predicate:
  "(needReloadAndEvent tag s \<longleftrightarrow>
      simulation_enabled s \<and> \<not> in_simula_event_progress s \<and> IsTransactionState s \<and>
      \<not> same_ignoring_case tag ''BEGIN'' \<and> \<not> same_ignoring_case tag ''START TRANSACTION'') \<and>
   (\<not> simulation_enabled s \<or> same_ignoring_case tag ''BEGIN'' \<or>
    same_ignoring_case tag ''START TRANSACTION'' \<longrightarrow>
      pg_simula_planner tag s = call_next_planner tag (register_xact_callback s) \<and>
      pg_simula_ProcessUtility tag s =
        call_next_ProcessUtility tag (register_xact_callback s))"
proof -
  have iff: "needReloadAndEvent tag s \<longleftrightarrow>
      simulation_enabled s \<and> \<not> in_simula_event_progress s \<and> IsTransactionState s \<and>
      \<not> same_ignoring_case tag ''BEGIN'' \<and> \<not> same_ignoring_case tag ''START TRANSACTION''"
    unfolding needReloadAndEvent_def pg_strcasecmp_cstring by blast
  moreover have "pg_simula_planner tag s = call_next_planner tag (register_xact_callback s)"
    and "pg_simula_ProcessUtility tag s =
           call_next_ProcessUtility tag (register_xact_callback s)"
    if "\<not> needReloadAndEvent tag s"
    using that by (simp_all add: planner_without_cycle utility_without_cycle)
  ultimately show ?thesis by blast
qed

theorem guard_predicate_witness:
  "same_ignoring_case ''begin'' ''BEGIN'' \<and>
   \<not> needReloadAndEvent ''begin''
       (idle_backend\<lparr>simulation_enabled := True, IsTransactionState := True\<rparr>) \<and>
   pg_simula_planner ''begin''
       (idle_backend\<lparr>simulation_enabled := True, IsTransactionState := True\<rparr>) =
     (Inr (), idle_backend\<lparr>simulation_enabled := True, IsTransactionState := True,
                registered_to_callback := True,
                trace := [PlannerCalled Standard ''begin'']\<rparr>)"
proof -
  have same: "same_ignoring_case ''begin'' ''BEGIN''"
    by code_simp
  with guard_predicate [of "''begin''"
      "idle_backend\<lparr>simulation_enabled := True, IsTransactionState := True\<rparr>"]
  show ?thesis
    by (simp add: call_next_planner_def register_xact_callback_def idle_backend_def emit_def)
qed

text \<open>
  Claim C2. While \<open>in_simula_event_progress\<close> is set, the planner hook and the utility
  hook only register the callback and call the next handler, for every tag. A statement
  that the engine itself sends through SPI in that state (the SELECT of the refresh, the
  INSERT of the upsert, the TRUNCATE of the clearing) therefore passes the hook without a
  refresh and without an action: the cache is as before, nothing but a failure of the
  storage request itself can be raised, and the trace gains the request and the call of
  the next handler only.
\<close>

theorem in_progress_blocks_cycle:
  assumes "in_simula_event_progress s"
  shows "pg_simula_planner tag s = call_next_planner tag (register_xact_callback s) \<and>
    pg_simula_ProcessUtility tag s = call_next_ProcessUtility tag (register_xact_callback s) \<and>
    SimulaEvents (snd (SPI_execute st s)) = SimulaEvents s \<and>
    (case fst (SPI_execute st s) of Inl e \<Rightarrow> e = StorageRaised st | Inr _ \<Rightarrow> True) \<and>
    trace (snd (SPI_execute st s)) =
      trace s @ SPIExecute st #
        (if spi_fault s \<noteq> None then []
         else case st of
           SelectAll \<Rightarrow> [PlannerCalled (if prev_planner s then Previous else Standard) ''SELECT'']
         | Upsert _ _ _ \<Rightarrow>
             [PlannerCalled (if prev_planner s then Previous else Standard) ''INSERT'']
         | Truncate \<Rightarrow>
             [UtilityCalled (if prev_ProcessUtility s then Previous else Standard)
                ''TRUNCATE TABLE''])"
proof -
  have hooks: "pg_simula_planner tag s = call_next_planner tag (register_xact_callback s)"
    "pg_simula_ProcessUtility tag s = call_next_ProcessUtility tag (register_xact_callback s)"
    using assms by (simp_all add: planner_in_progress utility_in_progress)
  have spi: "SimulaEvents (snd (SPI_execute st s)) = SimulaEvents s \<and>
    (case fst (SPI_execute st s) of Inl e \<Rightarrow> e = StorageRaised st | Inr _ \<Rightarrow> True) \<and>
    trace (snd (SPI_execute st s)) =
      trace s @ SPIExecute st #
        (if spi_fault s \<noteq> None then []
         else case st of
           SelectAll \<Rightarrow> [PlannerCalled (if prev_planner s then Previous else Standard) ''SELECT'']
         | Upsert _ _ _ \<Rightarrow>
             [PlannerCalled (if prev_planner s then Previous else Standard) ''INSERT'']
         | Truncate \<Rightarrow>
             [UtilityCalled (if prev_ProcessUtility s then Previous else Standard)
                ''TRUNCATE TABLE''])"
  proof (cases "spi_fault s")
    case None
    with assms show ?thesis
      by (cases st)
        (simp_all add: SPI_execute_select_in_progress SPI_execute_upsert_in_progress
          SPI_execute_truncate_in_progress call_next_planner_def call_next_ProcessUtility_def
          emit_def register_xact_callback_def)
  next
    case (Some f)
    then show ?thesis
      by (cases f) (simp_all add: SPI_execute_raises SPI_execute_returns_error emit_def)
  qed
  from hooks spi show ?thesis by blast
qed


theorem in_progress_blocks_cycle_witness:
  "in_simula_event_progress
     (idle_backend\<lparr>simulation_enabled := True, IsTransactionState := True,
        in_simula_event_progress := True,
        SimulaEvents := [\<lparr>operation = strncpy ''INSERT'' MAX_LENGTH,
                          action = strncpy ''error'' MAX_LENGTH, sec = 0\<rparr>]\<rparr>) \<and>
   fst (doEventIfAny ''INSERT''
     (idle_backend\<lparr>simulation_enabled := True, IsTransactionState := True,
        in_simula_event_progress := True,
        SimulaEvents := [\<lparr>operation = strncpy ''INSERT'' MAX_LENGTH,
                          action = strncpy ''error'' MAX_LENGTH, sec = 0\<rparr>]\<rparr>)) =
     Inl SimulatedERROR \<and>
   pg_simula_planner ''INSERT''
     (idle_backend\<lparr>simulation_enabled := True, IsTransactionState := True,
        in_simula_event_progress := True,
        SimulaEvents := [\<lparr>operation = strncpy ''INSERT'' MAX_LENGTH,
                          action = strncpy ''error'' MAX_LENGTH, sec = 0\<rparr>]\<rparr>) =
     (Inr (),
      idle_backend\<lparr>simulation_enabled := True, IsTransactionState := True,
        in_simula_event_progress := True,
        SimulaEvents := [\<lparr>operation = strncpy ''INSERT'' MAX_LENGTH,
                          action = strncpy ''error'' MAX_LENGTH, sec = 0\<rparr>],
        registered_to_callback := True,
        trace := [PlannerCalled Standard ''INSERT'']\<rparr>) \<and>
   trace (snd (SPI_execute (Upsert ''INSERT'' ''wait'' 1)
     (idle_backend\<lparr>simulation_enabled := True, IsTransactionState := True,
        in_simula_event_progress := True,
        SimulaEvents := [\<lparr>operation = strncpy ''INSERT'' MAX_LENGTH,
                          action = strncpy ''error'' MAX_LENGTH, sec = 0\<rparr>]\<rparr>))) =
     [SPIExecute (Upsert ''INSERT'' ''wait'' 1), PlannerCalled Standard ''INSERT'']"
proof -
  let ?s = "idle_backend\<lparr>simulation_enabled := True, IsTransactionState := True,
        in_simula_event_progress := True,
        SimulaEvents := [\<lparr>operation = strncpy ''INSERT'' MAX_LENGTH,
                          action = strncpy ''error'' MAX_LENGTH, sec = 0\<rparr>]\<rparr>"
  have set: "in_simula_event_progress ?s"
    by simp
  have fires: "fst (doEventIfAny ''INSERT'' ?s) = Inl SimulatedERROR"
    by code_simp
  from in_progress_blocks_cycle [OF set, of "''INSERT''" "Upsert ''INSERT'' ''wait'' 1"] set fires
  show ?thesis
    by (simp add: call_next_planner_def register_xact_callback_def idle_backend_def emit_def)
qed

subsection \<open>Dispatch\<close>

text \<open>
  Claim C3, as amended. For a cache whose buffers have MAX_LENGTH bytes and a tag shorter
  than MAX_LENGTH, \<open>doEventIfAny\<close> scans the cache in order and fires at most one action:
  the behaviour registered for the first rule whose operation is the tag ignoring case
  and whose action is a name of the action table, called with that rule's \<open>sec\<close>. It does
  nothing when the cache holds no such rule.
\<close>

theorem dispatch_first_recognized:
  assumes "list_all wf_event (SimulaEvents s)" and "length (c_content commandTag) < MAX_LENGTH"
  shows "doEventIfAny commandTag s =
    (case find (recognized commandTag) (SimulaEvents s) of
       None \<Rightarrow> (Inr (), s)
     | Some ev \<Rightarrow> (case registered (action ev) of
                     Some func \<Rightarrow> func (sec ev) s
                   | None \<Rightarrow> (Inr (), s)))"
  unfolding doEventIfAny_def using assms by (rule doEventIfAny_loop_find)

theorem dispatch_first_recognized_witness:
  "list_all wf_event [new_SimulaEvent ''DROP TABLE'' ''error'' 0, new_SimulaEvent ''drop table'' ''wait'' 5] \<and>
   length (c_content ''Drop Table'') < MAX_LENGTH \<and>
   doEventIfAny ''Drop Table''
     (idle_backend\<lparr>SimulaEvents :=
        [new_SimulaEvent ''DROP TABLE'' ''error'' 0, new_SimulaEvent ''drop table'' ''wait'' 5]\<rparr>) =
   (Inl SimulatedERROR,
    idle_backend\<lparr>SimulaEvents :=
        [new_SimulaEvent ''DROP TABLE'' ''error'' 0, new_SimulaEvent ''drop table'' ''wait'' 5]\<rparr>)"
proof -
  let ?s = "idle_backend\<lparr>SimulaEvents :=
        [new_SimulaEvent ''DROP TABLE'' ''error'' 0, new_SimulaEvent ''drop table'' ''wait'' 5]\<rparr>"
  have wf: "list_all wf_event (SimulaEvents ?s)"
    by simp
  have tag: "length (c_content ''Drop Table'') < MAX_LENGTH"
    by code_simp
  have first: "(case find (recognized ''Drop Table'') (SimulaEvents ?s) of
       None \<Rightarrow> (Inr (), ?s)
     | Some ev \<Rightarrow> (case registered (action ev) of
                     Some func \<Rightarrow> func (sec ev) ?s
                   | None \<Rightarrow> (Inr (), ?s))) = (Inl SimulatedERROR, ?s)"
    by code_simp
  from dispatch_first_recognized [OF wf tag] first wf tag show ?thesis
    by simp
qed

text \<open>
  The claim as stated fails where the first rule for the tag names no table entry: with a
  rule (SELECT, bogus, 1) ahead of a rule (select, wait, 2), the tag SELECT sleeps for the
  two seconds of the second rule.
\<close>

theorem dispatch_first_match_counterexample:
  "same_ignoring_case (operation (new_SimulaEvent ''SELECT'' ''bogus'' 1)) ''SELECT'' \<and>
   (case find_action ActionTable (action (new_SimulaEvent ''SELECT'' ''bogus'' 1)) of
      Inr None \<Rightarrow> True | _ \<Rightarrow> False) \<and>
   doEventIfAny ''SELECT''
     (idle_backend\<lparr>SimulaEvents := [new_SimulaEvent ''SELECT'' ''bogus'' 1, new_SimulaEvent ''select'' ''wait'' 2]\<rparr>) =
   (Inr (), emit (PgUsleep 2000000)
     (idle_backend\<lparr>SimulaEvents := [new_SimulaEvent ''SELECT'' ''bogus'' 1, new_SimulaEvent ''select'' ''wait'' 2]\<rparr>))"
  by code_simp

subsection \<open>The administrative entry points and the flag\<close>




subsection \<open>Refresh\<close>

text \<open>
  Claim C5. A refresh, entered with \<open>in_simula_event_progress\<close> set as both hooks enter
  it, returns normally exactly when the extension is not created or the storage read
  succeeds on rows without a NULL: the length of a value is no cause of rejection. After
  a normal return the cache is replaced: whatever it held before, it holds one rule per
  row of the relation, in the order the storage read returned them, each rule's operation
  and action being the row's strings cut to MAX_LENGTH (100) characters; when the
  extension is not created it is empty.
\<close>

theorem refresh_replaces_cache:
  assumes "in_simula_event_progress s"
  shows "(fst (reloadEventTableData s) = Inr () \<longleftrightarrow>
            \<not> extension_created s \<or>
            spi_fault s = None \<and> list_all no_null (simula_events s)) \<and>
         (fst (reloadEventTableData s) = Inr () \<longrightarrow>
            (if extension_created s
             then list_all2 snapshot_of (simula_events s)
                    (SimulaEvents (snd (reloadEventTableData s)))
             else SimulaEvents (snd (reloadEventTableData s)) = []))"
proof (intro conjI impI)
  show "fst (reloadEventTableData s) = Inr () \<longleftrightarrow>
      \<not> extension_created s \<or> spi_fault s = None \<and> list_all no_null (simula_events s)"
  proof (cases "spi_fault s")
    case None
    then show ?thesis by (simp add: reload_outcome [OF assms])
  next
    case (Some f)
    then show ?thesis by (cases f) (simp_all add: reload_outcome [OF assms])
  qed
next
  assume "fst (reloadEventTableData s) = Inr ()"
  then have "reloadEventTableData s = (Inr (), snd (reloadEventTableData s))"
    by (simp add: prod_eq_iff)
  from reload_snapshot [OF assms this]
  show "if extension_created s
        then list_all2 snapshot_of (simula_events s) (SimulaEvents (snd (reloadEventTableData s)))
        else SimulaEvents (snd (reloadEventTableData s)) = []" .
qed

theorem refresh_replaces_cache_witness:
  "in_simula_event_progress
     (idle_backend\<lparr>in_simula_event_progress := True,
        SimulaEvents := [new_SimulaEvent ''VACUUM'' ''panic'' 0],
        simula_events := [(''SELECT'', Some ''wait'', Some 2),
                          (replicate 120 CHR ''x'', Some ''error'', Some 0)]\<rparr>) \<and>
   list_all no_null
     [(''SELECT'', Some ''wait'', Some 2), (replicate 120 CHR ''x'', Some ''error'', Some 0)] \<and>
   fst (reloadEventTableData
     (idle_backend\<lparr>in_simula_event_progress := True,
        SimulaEvents := [new_SimulaEvent ''VACUUM'' ''panic'' 0],
        simula_events := [(''SELECT'', Some ''wait'', Some 2),
                          (replicate 120 CHR ''x'', Some ''error'', Some 0)]\<rparr>)) = Inr () \<and>
   list_all2 snapshot_of
     [(''SELECT'', Some ''wait'', Some 2), (replicate 120 CHR ''x'', Some ''error'', Some 0)]
     (SimulaEvents (snd (reloadEventTableData
       (idle_backend\<lparr>in_simula_event_progress := True,
          SimulaEvents := [new_SimulaEvent ''VACUUM'' ''panic'' 0],
          simula_events := [(''SELECT'', Some ''wait'', Some 2),
                            (replicate 120 CHR ''x'', Some ''error'', Some 0)]\<rparr>)))) \<and>
   map (\<lambda>ev. c_content (operation ev))
     (SimulaEvents (snd (reloadEventTableData
       (idle_backend\<lparr>in_simula_event_progress := True,
          SimulaEvents := [new_SimulaEvent ''VACUUM'' ''panic'' 0],
          simula_events := [(''SELECT'', Some ''wait'', Some 2),
                            (replicate 120 CHR ''x'', Some ''error'', Some 0)]\<rparr>)))) =
     [''SELECT'', replicate 100 CHR ''x'']"
proof -
  let ?s = "idle_backend\<lparr>in_simula_event_progress := True,
        SimulaEvents := [new_SimulaEvent ''VACUUM'' ''panic'' 0],
        simula_events := [(''SELECT'', Some ''wait'', Some 2),
                          (replicate 120 CHR ''x'', Some ''error'', Some 0)]\<rparr>"
  have set: "in_simula_event_progress ?s"
    by simp
  have host: "extension_created ?s" "spi_fault ?s = None" "simula_events ?s =
      [(''SELECT'', Some ''wait'', Some 2), (replicate 120 CHR ''x'', Some ''error'', Some 0)]"
    by (simp_all add: idle_backend_def)
  have rows: "list_all no_null
      [(''SELECT'', Some ''wait'', Some 2), (replicate 120 CHR ''x'', Some ''error'', Some 0)]"
    by (simp add: no_null_def)
  have contents: "map (\<lambda>ev. c_content (operation ev))
      (SimulaEvents (snd (reloadEventTableData ?s))) = [''SELECT'', replicate 100 CHR ''x'']"
    by code_simp
  from refresh_replaces_cache [OF set] host rows set contents show ?thesis
    by simp
qed

text \<open>
  Claim C6. When the extension is not created in the database, the refresh empties the
  cache and returns normally without sending anything to storage. When it is created and
  the storage read fails, the refresh raises; a hook that entered the refresh is left by
  that error with the cache empty, having neither dispatched nor called the next handler.
\<close>

theorem refresh_absent_or_failing:
  "(\<not> extension_created s \<longrightarrow>
      reloadEventTableData s = (Inr (), s\<lparr>SimulaEvents := []\<rparr>)) \<and>
   (extension_created s \<and> spi_fault s \<noteq> None \<longrightarrow>
      (\<exists>e. reloadEventTableData s =
         (Inl e, emit (SPIExecute SelectAll) (s\<lparr>SimulaEvents := []\<rparr>)))) \<and>
   (extension_created s \<and> spi_fault s \<noteq> None \<and> needReloadAndEvent commandTag s \<longrightarrow>
      (\<exists>e s'. pg_simula_planner commandTag s = (Inl e, s') \<and>
         pg_simula_ProcessUtility commandTag s = (Inl e, s') \<and>
         SimulaEvents s' = [] \<and> trace s' = trace s @ [SPIExecute SelectAll]))"
proof (intro conjI impI)
  assume "\<not> extension_created s"
  then show "reloadEventTableData s = (Inr (), s\<lparr>SimulaEvents := []\<rparr>)"
    by (rule reload_not_created)
next
  assume "extension_created s \<and> spi_fault s \<noteq> None"
  then obtain f where "extension_created s" "spi_fault s = Some f" by auto
  then show "\<exists>e. reloadEventTableData s =
         (Inl e, emit (SPIExecute SelectAll) (s\<lparr>SimulaEvents := []\<rparr>))"
    by (cases f) (simp_all add: reload_raises reload_returns_error)
next
  assume a: "extension_created s \<and> spi_fault s \<noteq> None \<and> needReloadAndEvent commandTag s"
  let ?s1 = "(register_xact_callback s)\<lparr>in_simula_event_progress := True\<rparr>"
  from a obtain f where "spi_fault s = Some f" by auto
  with a have f: "extension_created ?s1" "spi_fault ?s1 = Some f"
    by (simp_all add: register_xact_callback_def)
  then obtain e where e: "reloadEventTableData ?s1 =
      (Inl e, emit (SPIExecute SelectAll) (?s1\<lparr>SimulaEvents := []\<rparr>))"
    by (cases f) (simp_all add: reload_raises reload_returns_error)
  from a have need: "needReloadAndEvent commandTag s" by simp
  have "pg_simula_planner commandTag s =
      (Inl e, emit (SPIExecute SelectAll) (?s1\<lparr>SimulaEvents := []\<rparr>))"
    by (simp add: planner_with_cycle [OF need] e)
  moreover have "pg_simula_ProcessUtility commandTag s =
      (Inl e, emit (SPIExecute SelectAll) (?s1\<lparr>SimulaEvents := []\<rparr>))"
    by (simp add: utility_with_cycle [OF need] e)
  moreover have "SimulaEvents (emit (SPIExecute SelectAll) (?s1\<lparr>SimulaEvents := []\<rparr>)) = []"
    "trace (emit (SPIExecute SelectAll) (?s1\<lparr>SimulaEvents := []\<rparr>)) =
       trace s @ [SPIExecute SelectAll]"
    by (simp_all add: emit_def register_xact_callback_def)
  ultimately show "\<exists>e s'. pg_simula_planner commandTag s = (Inl e, s') \<and>
         pg_simula_ProcessUtility commandTag s = (Inl e, s') \<and>
         SimulaEvents s' = [] \<and> trace s' = trace s @ [SPIExecute SelectAll]"
    by blast
qed


theorem refresh_absent_or_failing_witness:
  "\<not> extension_created
      (idle_backend\<lparr>extension_created := False,
         SimulaEvents := [new_SimulaEvent ''VACUUM'' ''panic'' 0]\<rparr>) \<and>
   reloadEventTableData
      (idle_backend\<lparr>extension_created := False,
         SimulaEvents := [new_SimulaEvent ''VACUUM'' ''panic'' 0]\<rparr>) =
     (Inr (), idle_backend\<lparr>extension_created := False, SimulaEvents := []\<rparr>) \<and>
   extension_created
      (idle_backend\<lparr>simulation_enabled := True, IsTransactionState := True,
         spi_fault := Some SPIRaises\<rparr>) \<and>
   spi_fault
      (idle_backend\<lparr>simulation_enabled := True, IsTransactionState := True,
         spi_fault := Some SPIRaises\<rparr>) \<noteq> None \<and>
   needReloadAndEvent ''SELECT''
      (idle_backend\<lparr>simulation_enabled := True, IsTransactionState := True,
         spi_fault := Some SPIRaises\<rparr>) \<and>
   isl (fst (pg_simula_planner ''SELECT''
      (idle_backend\<lparr>simulation_enabled := True, IsTransactionState := True,
         spi_fault := Some SPIRaises\<rparr>))) \<and>
   trace (snd (pg_simula_planner ''SELECT''
      (idle_backend\<lparr>simulation_enabled := True, IsTransactionState := True,
         spi_fault := Some SPIRaises\<rparr>))) = [SPIExecute SelectAll]"
proof -
  let ?a = "idle_backend\<lparr>extension_created := False,
         SimulaEvents := [new_SimulaEvent ''VACUUM'' ''panic'' 0]\<rparr>"
  let ?b = "idle_backend\<lparr>simulation_enabled := True, IsTransactionState := True,
         spi_fault := Some SPIRaises\<rparr>"
  have absent: "\<not> extension_created ?a"
    by simp
  have failing: "extension_created ?b" "spi_fault ?b \<noteq> None" "trace ?b = []"
    by (simp_all add: idle_backend_def)
  have need: "needReloadAndEvent ''SELECT'' ?b"
    by code_simp
  from refresh_absent_or_failing [of ?a "''SELECT''"] absent
  have "reloadEventTableData ?a = (Inr (), ?a\<lparr>SimulaEvents := []\<rparr>)"
    by blast
  moreover from refresh_absent_or_failing [of ?b "''SELECT''"] failing need
  obtain e s' where "pg_simula_planner ''SELECT'' ?b = (Inl e, s')"
    "trace s' = [SPIExecute SelectAll]"
    by auto
  ultimately show ?thesis using absent failing need
    by simp
qed

subsection \<open>Forwarding\<close>

text \<open>
  Claim C7, as amended. Each hook, whenever it returns normally, has ended by calling the
  next handler for the intercepted statement: the previously installed hook when there is
  one, the standard handler otherwise, whether or not the refresh and dispatch ran. The
  call is not forwarded only when the hook is left by an error, and then the guard
  predicate held. For a relation without a NULL and a tag shorter than MAX_LENGTH that
  error is one of two: the storage read of the refresh failed (it raised, or returned an
  error code), or the action that dispatch invoked for the first recognized rule aborted.
\<close>

theorem hooks_forward_unless_raised:
  "(case pg_simula_planner tag s of
     (Inr _, s') \<Rightarrow>
       trace s' \<noteq> [] \<and>
       last (trace s') = PlannerCalled (if prev_planner s then Previous else Standard) tag
   | (Inl e, s') \<Rightarrow>
       needReloadAndEvent tag s \<and>
       (list_all no_null (simula_events s) \<and> length (c_content tag) < MAX_LENGTH \<longrightarrow>
        extension_created s \<and> spi_fault s \<noteq> None \<and>
          (e = StorageRaised SelectAll \<or> (\<exists>k. e = SPIExecuteFailed (- int k - 1))) \<or>
        (\<exists>s1 ev func.
           reloadEventTableData ((register_xact_callback s)\<lparr>in_simula_event_progress := True\<rparr>) =
             (Inr (), s1) \<and>
           find (recognized tag) (SimulaEvents s1) = Some ev \<and>
           registered (action ev) = Some func \<and> func (sec ev) s1 = (Inl e, s') \<and>
           (e = SimulatedERROR \<or> e = SimulatedPANIC \<or> e = SimulatedFATAL)))) \<and>
   (case pg_simula_ProcessUtility tag s of
     (Inr _, s') \<Rightarrow>
       trace s' \<noteq> [] \<and>
       last (trace s') = UtilityCalled (if prev_ProcessUtility s then Previous else Standard) tag
   | (Inl e, s') \<Rightarrow>
       needReloadAndEvent tag s \<and>
       (list_all no_null (simula_events s) \<and> length (c_content tag) < MAX_LENGTH \<longrightarrow>
        extension_created s \<and> spi_fault s \<noteq> None \<and>
          (e = StorageRaised SelectAll \<or> (\<exists>k. e = SPIExecuteFailed (- int k - 1))) \<or>
        (\<exists>s1 ev func.
           reloadEventTableData ((register_xact_callback s)\<lparr>in_simula_event_progress := True\<rparr>) =
             (Inr (), s1) \<and>
           find (recognized tag) (SimulaEvents s1) = Some ev \<and>
           registered (action ev) = Some func \<and> func (sec ev) s1 = (Inl e, s') \<and>
           (e = SimulatedERROR \<or> e = SimulatedPANIC \<or> e = SimulatedFATAL))))"
proof (rule conjI)
  obtain r s' where run: "pg_simula_planner tag s = (r, s')" by (cases "pg_simula_planner tag s")
  show "case pg_simula_planner tag s of
     (Inr _, s') \<Rightarrow>
       trace s' \<noteq> [] \<and>
       last (trace s') = PlannerCalled (if prev_planner s then Previous else Standard) tag
   | (Inl e, s') \<Rightarrow>
       needReloadAndEvent tag s \<and>
       (list_all no_null (simula_events s) \<and> length (c_content tag) < MAX_LENGTH \<longrightarrow>
        extension_created s \<and> spi_fault s \<noteq> None \<and>
          (e = StorageRaised SelectAll \<or> (\<exists>k. e = SPIExecuteFailed (- int k - 1))) \<or>
        (\<exists>s1 ev func.
           reloadEventTableData ((register_xact_callback s)\<lparr>in_simula_event_progress := True\<rparr>) =
             (Inr (), s1) \<and>
           find (recognized tag) (SimulaEvents s1) = Some ev \<and>
           registered (action ev) = Some func \<and> func (sec ev) s1 = (Inl e, s') \<and>
           (e = SimulatedERROR \<or> e = SimulatedPANIC \<or> e = SimulatedFATAL)))"
  proof (cases r)
    case (Inr u)
    with run planner_forwards [of tag s] show ?thesis by simp
  next
    case (Inl e)
    with run planner_forwards [of tag s]
    have need: "needReloadAndEvent tag s"
      and raised: "reloadEventTableData
            ((register_xact_callback s)\<lparr>in_simula_event_progress := True\<rparr>) = (Inl e, s') \<or>
        (\<exists>s1. reloadEventTableData
                 ((register_xact_callback s)\<lparr>in_simula_event_progress := True\<rparr>) =
                (Inr (), s1) \<and>
              doEventIfAny tag s1 = (Inl e, s'))"
      by simp_all
    from cycle_error [OF need _ _ raised] need run Inl show ?thesis by simp
  qed
next
  obtain r s' where run: "pg_simula_ProcessUtility tag s = (r, s')"
    by (cases "pg_simula_ProcessUtility tag s")
  show "case pg_simula_ProcessUtility tag s of
     (Inr _, s') \<Rightarrow>
       trace s' \<noteq> [] \<and>
       last (trace s') = UtilityCalled (if prev_ProcessUtility s then Previous else Standard) tag
   | (Inl e, s') \<Rightarrow>
       needReloadAndEvent tag s \<and>
       (list_all no_null (simula_events s) \<and> length (c_content tag) < MAX_LENGTH \<longrightarrow>
        extension_created s \<and> spi_fault s \<noteq> None \<and>
          (e = StorageRaised SelectAll \<or> (\<exists>k. e = SPIExecuteFailed (- int k - 1))) \<or>
        (\<exists>s1 ev func.
           reloadEventTableData ((register_xact_callback s)\<lparr>in_simula_event_progress := True\<rparr>) =
             (Inr (), s1) \<and>
           find (recognized tag) (SimulaEvents s1) = Some ev \<and>
           registered (action ev) = Some func \<and> func (sec ev) s1 = (Inl e, s') \<and>
           (e = SimulatedERROR \<or> e = SimulatedPANIC \<or> e = SimulatedFATAL)))"
  proof (cases r)
    case (Inr u)
    with run utility_forwards [of tag s] show ?thesis by simp
  next
    case (Inl e)
    with run utility_forwards [of tag s]
    have need: "needReloadAndEvent tag s"
      and raised: "reloadEventTableData
            ((register_xact_callback s)\<lparr>in_simula_event_progress := True\<rparr>) = (Inl e, s') \<or>
        (\<exists>s1. reloadEventTableData
                 ((register_xact_callback s)\<lparr>in_simula_event_progress := True\<rparr>) =
                (Inr (), s1) \<and>
              doEventIfAny tag s1 = (Inl e, s'))"
      by simp_all
    from cycle_error [OF need _ _ raised] need run Inl show ?thesis by simp
  qed
qed

text \<open>
  The claim as stated names an aborting action as the only thing that can keep the call
  from the next handler. A refresh whose storage read raises does the same, at both hooks,
  before any action is looked up.
\<close>

theorem hooks_forward_counterexample:
  "pg_simula_planner ''SELECT''
     (idle_backend\<lparr>simulation_enabled := True, IsTransactionState := True,
        spi_fault := Some SPIRaises\<rparr>) =
   (Inl (StorageRaised SelectAll),
    idle_backend\<lparr>simulation_enabled := True, IsTransactionState := True,
        spi_fault := Some SPIRaises, registered_to_callback := True,
        in_simula_event_progress := True, trace := [SPIExecute SelectAll]\<rparr>) \<and>
   pg_simula_ProcessUtility ''DROP TABLE''
     (idle_backend\<lparr>simulation_enabled := True, IsTransactionState := True,
        spi_fault := Some SPIRaises\<rparr>) =
   (Inl (StorageRaised SelectAll),
    idle_backend\<lparr>simulation_enabled := True, IsTransactionState := True,
        spi_fault := Some SPIRaises, registered_to_callback := True,
        in_simula_event_progress := True, trace := [SPIExecute SelectAll]\<rparr>)"
  by code_simp

theorem hooks_forward_unless_raised_witness:
  "pg_simula_planner ''SELECT''
     (idle_backend\<lparr>simulation_enabled := True, IsTransactionState := True, prev_planner := True,
        simula_events := [(''select'', Some ''wait'', Some 3)]\<rparr>) =
   (Inr (),
    idle_backend\<lparr>simulation_enabled := True, IsTransactionState := True, prev_planner := True,
        simula_events := [(''select'', Some ''wait'', Some 3)],
        registered_to_callback := True,
        SimulaEvents := [new_SimulaEvent ''select'' ''wait'' 3],
        trace := [SPIExecute SelectAll, PlannerCalled Previous ''SELECT'', PgUsleep 3000000,
                  PlannerCalled Previous ''SELECT'']\<rparr>) \<and>
   last [SPIExecute SelectAll, PlannerCalled Previous ''SELECT'', PgUsleep 3000000,
         PlannerCalled Previous ''SELECT''] = PlannerCalled Previous ''SELECT'' \<and>
   list_all no_null [(''DROP TABLE'', Some ''error'', Some 0)] \<and>
   length (c_content ''drop table'') < MAX_LENGTH \<and>
   fst (pg_simula_ProcessUtility ''drop table''
     (idle_backend\<lparr>simulation_enabled := True, IsTransactionState := True,
        simula_events := [(''DROP TABLE'', Some ''error'', Some 0)]\<rparr>)) = Inl SimulatedERROR \<and>
   needReloadAndEvent ''drop table''
     (idle_backend\<lparr>simulation_enabled := True, IsTransactionState := True,
        simula_events := [(''DROP TABLE'', Some ''error'', Some 0)]\<rparr>)"
proof -
  let ?s = "idle_backend\<lparr>simulation_enabled := True, IsTransactionState := True,
        prev_planner := True, simula_events := [(''select'', Some ''wait'', Some 3)]\<rparr>"
  let ?d = "idle_backend\<lparr>simulation_enabled := True, IsTransactionState := True,
        simula_events := [(''DROP TABLE'', Some ''error'', Some 0)]\<rparr>"
  have run: "pg_simula_planner ''SELECT'' ?s =
   (Inr (),
    idle_backend\<lparr>simulation_enabled := True, IsTransactionState := True, prev_planner := True,
        simula_events := [(''select'', Some ''wait'', Some 3)],
        registered_to_callback := True,
        SimulaEvents := [new_SimulaEvent ''select'' ''wait'' 3],
        trace := [SPIExecute SelectAll, PlannerCalled Previous ''SELECT'', PgUsleep 3000000,
                  PlannerCalled Previous ''SELECT'']\<rparr>)"
    by code_simp
  have rows: "list_all no_null [(''DROP TABLE'', Some ''error'', Some 0)]"
    by (simp add: no_null_def)
  have tag: "length (c_content ''drop table'') < MAX_LENGTH"
    by code_simp
  have abort: "fst (pg_simula_ProcessUtility ''drop table'' ?d) = Inl SimulatedERROR"
    by code_simp
  from hooks_forward_unless_raised [of "''drop table''" ?d] abort
  have need: "needReloadAndEvent ''drop table'' ?d"
    by (auto simp: case_prod_beta split: sum.splits)
  from hooks_forward_unless_raised [of "''SELECT''" ?s] run rows tag abort need show ?thesis
    by simp
qed

subsection \<open>Validation and upsert\<close>

text \<open>
  Claim C8, as amended. \<open>add_simula_event\<close> raises the invalid-action error exactly when
  the action is the name of no entry of the action table, letters compared without regard
  to case, and it has then sent nothing to storage and written nothing. For a known
  action, an operation without a single quote (the statement text does not escape one)
  and a statement that the host executes, it returns true and the relation is the result
  of the upsert keyed by operation. After a second upsert of the same operation the
  relation holds exactly one row for it, with the second call's action and sec, and its
  other rows are as they were.
\<close>

theorem add_simula_event_validates_then_upserts:
  "(fst (add_simula_event ope act n s) = Inl (InvalidAction (c_content act)) \<longleftrightarrow>
      registered act = None) \<and>
   (registered act = None \<longrightarrow>
      snd (add_simula_event ope act n s) = s\<lparr>in_simula_event_progress := True\<rparr>) \<and>
   (registered act \<noteq> None \<and> spi_fault s = None \<and> CHR 0x27 \<notin> set (c_content ope) \<longrightarrow>
      fst (add_simula_event ope act n s) = Inr True \<and>
      simula_events (snd (add_simula_event ope act n s)) =
        upsert_row (c_content ope) (c_content act) n (simula_events s)) \<and>
   (registered act \<noteq> None \<and> registered act' \<noteq> None \<and> spi_fault s = None \<and>
    CHR 0x27 \<notin> set (c_content ope) \<and> distinct (map fst (simula_events s)) \<longrightarrow>
      fst (add_simula_event ope act' n' (snd (add_simula_event ope act n s))) = Inr True \<and>
      filter (\<lambda>r. fst r = c_content ope)
        (simula_events (snd (add_simula_event ope act' n' (snd (add_simula_event ope act n s))))) =
        [(c_content ope, Some (c_content act'), Some n')] \<and>
      filter (\<lambda>r. fst r \<noteq> c_content ope)
        (simula_events (snd (add_simula_event ope act' n' (snd (add_simula_event ope act n s))))) =
        filter (\<lambda>r. fst r \<noteq> c_content ope) (simula_events s))"
proof (intro conjI impI)
  show "fst (add_simula_event ope act n s) = Inl (InvalidAction (c_content act)) \<longleftrightarrow>
      registered act = None"
  proof (cases "registered act")
    case None
    then show ?thesis by (simp add: add_unknown)
  next
    case (Some func)
    then have known: "registered act \<noteq> None" by simp
    show ?thesis
    proof (cases "spi_fault s")
      case None
      with known show ?thesis by (simp add: add_executed)
    next
      case (Some f)
      with known show ?thesis
        by (cases f) (simp_all add: add_raises add_returns_error)
    qed
  qed
next
  assume "registered act = None"
  then show "snd (add_simula_event ope act n s) = s\<lparr>in_simula_event_progress := True\<rparr>"
    by (simp add: add_unknown)
next
  assume a: "registered act \<noteq> None \<and> spi_fault s = None \<and> CHR 0x27 \<notin> set (c_content ope)"
  then show "fst (add_simula_event ope act n s) = Inr True"
    by (simp add: add_executed)
  from a show "simula_events (snd (add_simula_event ope act n s)) =
        upsert_row (c_content ope) (c_content act) n (simula_events s)"
    by (simp add: add_executed)
next
  assume a: "registered act \<noteq> None \<and> registered act' \<noteq> None \<and> spi_fault s = None \<and>
    CHR 0x27 \<notin> set (c_content ope) \<and> distinct (map fst (simula_events s))"
  let ?s1 = "snd (add_simula_event ope act n s)"
  let ?s2 = "snd (add_simula_event ope act' n' ?s1)"
  from a have rows1: "simula_events ?s1 =
      upsert_row (c_content ope) (c_content act) n (simula_events s)"
    by (simp add: add_executed)
  from a have fault1: "spi_fault ?s1 = None"
    by (simp add: add_preserves_fault)
  with a have rows2: "simula_events ?s2 =
      upsert_row (c_content ope) (c_content act') n' (simula_events ?s1)"
    by (simp add: add_executed)
  from a have d1: "distinct (map fst (simula_events ?s1))"
    unfolding rows1 by (intro upsert_row_distinct) simp
  from a fault1 show "fst (add_simula_event ope act' n' ?s1) = Inr True"
    by (simp add: add_executed)
  from d1 show "filter (\<lambda>r. fst r = c_content ope) (simula_events ?s2) =
      [(c_content ope, Some (c_content act'), Some n')]"
    unfolding rows2 by (rule upsert_row_key)
  show "filter (\<lambda>r. fst r \<noteq> c_content ope) (simula_events ?s2) =
      filter (\<lambda>r. fst r \<noteq> c_content ope) (simula_events s)"
    unfolding rows2 rows1 by (simp add: upsert_row_other)
qed

theorem add_simula_event_validates_then_upserts_witness:
  "registered ''WAIT'' \<noteq> None \<and> registered ''error'' \<noteq> None \<and>
   spi_fault (idle_backend\<lparr>simula_events := [(''VACUUM'', Some ''panic'', Some 0)]\<rparr>) = None \<and>
   CHR 0x27 \<notin> set (c_content ''DROP TABLE'') \<and>
   distinct (map fst
     (simula_events (idle_backend\<lparr>simula_events := [(''VACUUM'', Some ''panic'', Some 0)]\<rparr>))) \<and>
   fst (add_simula_event ''DROP TABLE'' ''error'' 0
     (snd (add_simula_event ''DROP TABLE'' ''WAIT'' 7
        (idle_backend\<lparr>simula_events := [(''VACUUM'', Some ''panic'', Some 0)]\<rparr>)))) =
     Inr True \<and>
   simula_events (snd (add_simula_event ''DROP TABLE'' ''error'' 0
     (snd (add_simula_event ''DROP TABLE'' ''WAIT'' 7
        (idle_backend\<lparr>simula_events := [(''VACUUM'', Some ''panic'', Some 0)]\<rparr>))))) =
     [(''VACUUM'', Some ''panic'', Some 0), (''DROP TABLE'', Some ''error'', Some 0)] \<and>
   filter (\<lambda>r. fst r = c_content ''DROP TABLE'')
     (simula_events (snd (add_simula_event ''DROP TABLE'' ''error'' 0
       (snd (add_simula_event ''DROP TABLE'' ''WAIT'' 7
          (idle_backend\<lparr>simula_events := [(''VACUUM'', Some ''panic'', Some 0)]\<rparr>)))))) =
     [(c_content ''DROP TABLE'', Some (c_content ''error''), Some 0)]"
proof -
  let ?s = "idle_backend\<lparr>simula_events := [(''VACUUM'', Some ''panic'', Some 0)]\<rparr>"
  have host: "spi_fault ?s = None" "distinct (map fst (simula_events ?s))"
    by (simp_all add: idle_backend_def)
  have quote: "CHR 0x27 \<notin> set (c_content ''DROP TABLE'')"
    by code_simp
  have rows: "simula_events (snd (add_simula_event ''DROP TABLE'' ''error'' 0
      (snd (add_simula_event ''DROP TABLE'' ''WAIT'' 7 ?s)))) =
      [(''VACUUM'', Some ''panic'', Some 0), (''DROP TABLE'', Some ''error'', Some 0)]"
    by code_simp
  from add_simula_event_validates_then_upserts
         [of "''DROP TABLE''" "''WAIT''" 7 ?s "''error''" 0]
       registered_wait host quote rows
  show ?thesis
    by simp
qed

text \<open>
  The claim as stated makes the unknown action the only case of an error without a write.
  With a known action, a statement that raises inside the host is another.
\<close>

theorem add_simula_event_counterexample:
  "action_found ActionTable ''error'' \<and>
   add_simula_event ''SELECT'' ''error'' 0 (idle_backend\<lparr>spi_fault := Some SPIRaises\<rparr>) =
     (Inl (StorageRaised (Upsert ''SELECT'' ''error'' 0)),
      idle_backend\<lparr>spi_fault := Some SPIRaises, in_simula_event_progress := True,
        trace := [SPIExecute (Upsert ''SELECT'' ''error'' 0)]\<rparr>)"
  by code_simp

subsection \<open>The wait action\<close>

text \<open>
  Claim C9. \<open>wait_func\<close> is to suspend the session for \<open>sec\<close> seconds: it hands
  \<^verbatim>\<open>pg_usleep\<close> the product \<open>sec * 1000 * 1000\<close>. The product is formed in the 32-bit
  \<^verbatim>\<open>int\<close> of the parameter, so it is the number of microseconds in \<open>sec\<close> seconds up to
  \<open>sec = 2147\<close> (lemma \<open>wait_func_exact_in_range\<close>) and wraps around from 2148 on: for an
  hour, \<open>sec = 3600\<close>, the code asks for a negative delay, directly and when the rule
  (SELECT, wait, 3600) is dispatched.
\<close>

theorem wait_func_overflow:
  "wait_func 3600 idle_backend = (Inr (), emit (PgUsleep (- 694967296)) idle_backend) \<and>
   wait_func 2148 idle_backend = (Inr (), emit (PgUsleep (- 2146967296)) idle_backend) \<and>
   wait_func 2147 idle_backend = (Inr (), emit (PgUsleep 2147000000) idle_backend) \<and>
   trace (snd (doEventIfAny ''SELECT''
     (idle_backend\<lparr>SimulaEvents := [new_SimulaEvent ''SELECT'' ''wait'' 3600]\<rparr>))) =
     [PgUsleep (- 694967296)]"
proof -
  have direct: "wait_func 3600 idle_backend = (Inr (), emit (PgUsleep (- 694967296)) idle_backend)"
    "wait_func 2148 idle_backend = (Inr (), emit (PgUsleep (- 2146967296)) idle_backend)"
    "wait_func 2147 idle_backend = (Inr (), emit (PgUsleep 2147000000) idle_backend)"
    by (simp_all add: wait_func_def)
  have dispatched: "trace (snd (doEventIfAny ''SELECT''
     (idle_backend\<lparr>SimulaEvents := [new_SimulaEvent ''SELECT'' ''wait'' 3600]\<rparr>))) =
     [PgUsleep (- 694967296)]"
    by code_simp
  from direct dispatched show ?thesis by simp
qed

subsection \<open>Unrecognized actions at dispatch\<close>

text \<open>
  Claim C10. When the first cached rule whose operation is the tag ignoring case carries an
  action that is no name of the action table, \<open>doEventIfAny\<close> calls nothing for it and
  raises nothing: the result is that of the scan over the rules after it, which may fire
  the action of a later rule for the same operation.
\<close>

theorem dispatch_skips_unrecognized:
  assumes cache: "SimulaEvents s = before @ ev # later"
    and wf: "list_all wf_event (SimulaEvents s)"
    and tag: "length (c_content commandTag) < MAX_LENGTH"
    and first: "\<forall>e \<in> set before. \<not> same_ignoring_case (operation e) commandTag"
    and matches: "same_ignoring_case (operation ev) commandTag"
    and unknown: "registered (action ev) = None"
  shows "doEventIfAny commandTag s = doEventIfAny_loop commandTag later s"
proof -
  from wf cache have wf_before: "list_all wf_event before" and wf_ev: "wf_event ev"
    by simp_all
  from wf_before first
  have "doEventIfAny_loop commandTag (before @ ev # later) s =
        doEventIfAny_loop commandTag (ev # later) s"
  proof (induction before)
    case Nil
    show ?case by simp
  next
    case (Cons e before)
    then show ?case
      by (simp add: doEventIfAny_loop_step [OF _ tag] del: doEventIfAny_loop.simps)
  qed
  also have "\<dots> = doEventIfAny_loop commandTag later s"
    using matches unknown
    by (simp add: doEventIfAny_loop_step [OF wf_ev tag] del: doEventIfAny_loop.simps)
  finally show ?thesis by (simp add: doEventIfAny_def cache)
qed

theorem dispatch_skips_unrecognized_witness:
  "list_all wf_event
     [new_SimulaEvent ''DELETE'' ''error'' 0, new_SimulaEvent ''SELECT'' ''bogus'' 1, new_SimulaEvent ''select'' ''wait'' 2] \<and>
   length (c_content ''SELECT'') < MAX_LENGTH \<and>
   \<not> same_ignoring_case (operation (new_SimulaEvent ''DELETE'' ''error'' 0)) ''SELECT'' \<and>
   same_ignoring_case (operation (new_SimulaEvent ''SELECT'' ''bogus'' 1)) ''SELECT'' \<and>
   registered (action (new_SimulaEvent ''SELECT'' ''bogus'' 1)) = None \<and>
   doEventIfAny ''SELECT''
     (idle_backend\<lparr>SimulaEvents :=
        [new_SimulaEvent ''DELETE'' ''error'' 0, new_SimulaEvent ''SELECT'' ''bogus'' 1, new_SimulaEvent ''select'' ''wait'' 2]\<rparr>) =
   (Inr (), emit (PgUsleep 2000000)
     (idle_backend\<lparr>SimulaEvents :=
        [new_SimulaEvent ''DELETE'' ''error'' 0, new_SimulaEvent ''SELECT'' ''bogus'' 1, new_SimulaEvent ''select'' ''wait'' 2]\<rparr>))"
proof -
  let ?s = "idle_backend\<lparr>SimulaEvents :=
        [new_SimulaEvent ''DELETE'' ''error'' 0, new_SimulaEvent ''SELECT'' ''bogus'' 1, new_SimulaEvent ''select'' ''wait'' 2]\<rparr>"
  have cache: "SimulaEvents ?s =
      [new_SimulaEvent ''DELETE'' ''error'' 0] @ new_SimulaEvent ''SELECT'' ''bogus'' 1 # [new_SimulaEvent ''select'' ''wait'' 2]"
    by simp
  have wf: "list_all wf_event (SimulaEvents ?s)"
    by simp
  have tag: "length (c_content ''SELECT'') < MAX_LENGTH"
    by code_simp
  have other: "\<not> same_ignoring_case (operation (new_SimulaEvent ''DELETE'' ''error'' 0)) ''SELECT''"
    by code_simp
  then have first: "\<forall>e \<in> set [new_SimulaEvent ''DELETE'' ''error'' 0].
      \<not> same_ignoring_case (operation e) ''SELECT''"
    by simp
  have matches: "same_ignoring_case (operation (new_SimulaEvent ''SELECT'' ''bogus'' 1)) ''SELECT''"
    by code_simp
  have later: "doEventIfAny_loop ''SELECT'' [new_SimulaEvent ''select'' ''wait'' 2] ?s =
      (Inr (), emit (PgUsleep 2000000) ?s)"
    by code_simp
  from dispatch_skips_unrecognized [OF cache wf tag first matches registered_bogus] later
    wf tag other matches registered_bogus [of "''SELECT''" 1]
  show ?thesis
    by simp
qed

end
